theory Spec2Isabelle
  imports Main "HOL-Library.AList" "HOL-Library.Char_ord" "HOL-Library.List_Lexorder"
    "HOL-Library.Sublist"
begin

section \<open>Values, dictionaries and errors\<close>

text \<open>
  An ad definition is a Python \<open>dict[str, Any]\<close> loaded from YAML. The values that occur
  are \<open>None\<close>, booleans, integers, strings, timestamps (the YAML loader turns an ISO
  timestamp into a \<open>datetime\<close>; it is kept as microseconds since the epoch), lists and
  nested dictionaries. Floating-point scalars are not modelled. A string is a list of
  characters, one per code point. A dictionary is an association list in insertion order;
  \<open>AList.update\<close> keeps the position of an existing key and appends a new one, as a
  Python \<open>dict\<close> does.
\<close>

datatype pyval =
    VNone
  | VBool bool
  | VInt int
  | VStr string
  | VDatetime int
  | VList "pyval list"
  | VDict "(string \<times> pyval) list"

type_synonym pydict = "(string \<times> pyval) list"

text \<open>The message templates of the \<open>ensure\<close> calls of \<open>load_ads\<close>, one constructor each.\<close>

datatype failure =
    DescriptionTooLong
  | MustBeOneOf string "string list"
  | MinLen string nat
  | NotSpecified string
  | PriceForGiveAway
  | UnsupportedImageType string
  | NoImagesFound

datatype error =
    KeyError string
  | TypeError
  | ValueError
  | AssertionError failure

text \<open>Python truthiness (\<open>if v:\<close>, \<open>not v\<close>, \<open>v or w\<close>).\<close>

fun truthy :: "pyval \<Rightarrow> bool" where
  "truthy VNone = False"
| "truthy (VBool b) = b"
| "truthy (VInt i) = (i \<noteq> 0)"
| "truthy (VStr s) = (s \<noteq> [])"
| "truthy (VDatetime t) = True"
| "truthy (VList xs) = (xs \<noteq> [])"
| "truthy (VDict d) = (d \<noteq> [])"

text \<open>\<open>d[k]\<close>: raises \<open>KeyError\<close> on a missing key.\<close>

definition getitem :: "pydict \<Rightarrow> string \<Rightarrow> error + pyval" where
  "getitem d k = (case map_of d k of None \<Rightarrow> Inl (KeyError k) | Some v \<Rightarrow> Inr v)"

text \<open>\<open>d[k] = v\<close>.\<close>

definition setitem :: "pydict \<Rightarrow> string \<Rightarrow> pyval \<Rightarrow> pydict" where
  "setitem d k v = AList.update k v d"

text \<open>
  Modelled from the spec: \<open>utils.ensure\<close> is not under src/. With a plain value as
  condition it returns when the value is truthy and raises with the message otherwise
  (the spec's "fails with ValidationError on first broken rule").
\<close>

definition ensure :: "bool \<Rightarrow> failure \<Rightarrow> error + unit" where
  "ensure cond msg = (if cond then Inr () else Inl (AssertionError msg))"

text \<open>
  Modelled from the spec: \<open>utils.safe_get\<close> is not under src/. It follows a field path
  (\<open>contact.name\<close> is the path \<open>[contact, name]\<close>) through nested dictionaries and yields
  \<open>None\<close> where a step is absent or the value reached is not a dictionary.
\<close>

fun safe_get :: "pyval \<Rightarrow> string list \<Rightarrow> pyval" where
  "safe_get v [] = v"
| "safe_get (VDict d) (k # ks) = (case map_of d k of None \<Rightarrow> VNone | Some w \<Rightarrow> safe_get w ks)"
| "safe_get v (k # ks) = VNone"

section \<open>Selection of due ads\<close>

text \<open>
  \<open>timedelta.days\<close>: a \<open>timedelta\<close> is normalised so that its seconds and microseconds
  are non-negative; its days are the floor of the whole span in days.
\<close>

definition usec_per_day :: int where
  "usec_per_day = 86400000000"

definition timedelta_days :: "int \<Rightarrow> int" where
  "timedelta_days us = us div usec_per_day"

text \<open>The right operand of \<open>ad_age.days <= v\<close>: an \<open>int\<close> (a \<open>bool\<close> is one); anything else raises.\<close>

fun int_operand :: "pyval \<Rightarrow> error + int" where
  "int_operand (VInt n) = Inr n"
| "int_operand (VBool b) = Inr (if b then 1 else 0)"
| "int_operand v = Inl TypeError"

text \<open>
  Lines 244-249 of \<open>load_ads\<close>. \<open>parse_datetime\<close> (utils, not under src/) is the
  parameter \<open>parse\<close>: it yields the parsed timestamp in microseconds or raises; \<open>now\<close> is
  \<open>datetime.utcnow()\<close>.
\<close>

definition last_updated_on :: "(pyval \<Rightarrow> error + int) \<Rightarrow> pydict \<Rightarrow> error + int option" where
  "last_updated_on parse ad_cfg =
     (case getitem ad_cfg ''updated_on'' of Inl e \<Rightarrow> Inl e | Inr u \<Rightarrow>
        if truthy u then
          (case parse u of Inl e \<Rightarrow> Inl e | Inr t \<Rightarrow> Inr (Some t))
        else
          (case getitem ad_cfg ''created_on'' of Inl e \<Rightarrow> Inl e | Inr c \<Rightarrow>
             if truthy c then
               (case parse c of Inl e \<Rightarrow> Inl e | Inr t \<Rightarrow> Inr (Some t))
             else Inr None))"

text \<open>
  Lines 243-259: the block run when the selector is \<open>due\<close>. The result \<open>True\<close> is the
  \<open>continue\<close> (the ad is skipped), \<open>False\<close> falls through to the rest of the loop body.
\<close>

definition due_skipped :: "(pyval \<Rightarrow> error + int) \<Rightarrow> int \<Rightarrow> pydict \<Rightarrow> error + bool" where
  "due_skipped parse now ad_cfg =
     (case last_updated_on parse ad_cfg of Inl e \<Rightarrow> Inl e
      | Inr None \<Rightarrow> Inr False
      | Inr (Some t) \<Rightarrow>
          (case getitem ad_cfg ''republication_interval'' of Inl e \<Rightarrow> Inl e | Inr v \<Rightarrow>
             (case int_operand v of Inl e \<Rightarrow> Inl e
              | Inr n \<Rightarrow> Inr (timedelta_days (now - t) \<le> n))))"

text \<open>
  Lines 235-259: the three filters of the loop body, in the order of the source. The
  result \<open>True\<close> means the ad is selected (no \<open>continue\<close> was taken).
\<close>

definition selected :: "string \<Rightarrow> bool \<Rightarrow> bool \<Rightarrow> (pyval \<Rightarrow> error + int) \<Rightarrow> int \<Rightarrow> pydict \<Rightarrow> error + bool" where
  "selected selector ignore_inactive check_id parse now ad_cfg =
     (case (if ignore_inactive
            then (case getitem ad_cfg ''active'' of Inl e \<Rightarrow> Inl e | Inr a \<Rightarrow> Inr (\<not> truthy a))
            else Inr False) of
        Inl e \<Rightarrow> Inl e
      | Inr True \<Rightarrow> Inr False
      | Inr False \<Rightarrow>
          (case (if selector = ''new''
                 then (case getitem ad_cfg ''id'' of Inl e \<Rightarrow> Inl e | Inr i \<Rightarrow> Inr (truthy i \<and> check_id))
                 else Inr False) of
             Inl e \<Rightarrow> Inl e
           | Inr True \<Rightarrow> Inr False
           | Inr False \<Rightarrow>
               if selector = ''due''
               then (case due_skipped parse now ad_cfg of Inl e \<Rightarrow> Inl e | Inr s \<Rightarrow> Inr (\<not> s))
               else Inr True))"

section \<open>Description and validation\<close>

text \<open>
  Line 261: \<open>descr_prefix + (ad_cfg["description"] or "") + descr_suffix\<close>. Adding a
  value that is not a string to a string raises \<open>TypeError\<close>.
\<close>

definition compose_description :: "string \<Rightarrow> string \<Rightarrow> pydict \<Rightarrow> error + pydict" where
  "compose_description descr_prefix descr_suffix ad_cfg =
     (case getitem ad_cfg ''description'' of Inl e \<Rightarrow> Inl e | Inr d \<Rightarrow>
        (case (if truthy d then d else VStr []) of
           VStr body \<Rightarrow> Inr (setitem ad_cfg ''description'' (VStr (descr_prefix @ body @ descr_suffix)))
         | _ \<Rightarrow> Inl TypeError))"

text \<open>\<open>len(v)\<close>: defined on strings, lists and dictionaries.\<close>

fun py_len :: "pyval \<Rightarrow> error + nat" where
  "py_len (VStr s) = Inr (length s)"
| "py_len (VList xs) = Inr (length xs)"
| "py_len (VDict d) = Inr (length d)"
| "py_len v = Inl TypeError"

text \<open>\<open>path.split(".")\<close>.\<close>

fun split_on :: "char \<Rightarrow> string \<Rightarrow> string list" where
  "split_on c [] = [[]]"
| "split_on c (x # xs) =
     (if x = c then [] # split_on c xs
      else (case split_on c xs of [] \<Rightarrow> [[x]] | w # ws \<Rightarrow> (x # w) # ws))"

text \<open>
  \<open>v in allowed\<close> for a set of strings: the value is hashed first, which raises for a
  list or a dictionary; a value of another type is not a member.
\<close>

fun in_str_set :: "pyval \<Rightarrow> string list \<Rightarrow> error + bool" where
  "in_str_set (VStr s) allowed = Inr (s \<in> set allowed)"
| "in_str_set (VList xs) allowed = Inl TypeError"
| "in_str_set (VDict d) allowed = Inl TypeError"
| "in_str_set v allowed = Inr False"

text \<open>Line 262.\<close>

definition check_description_length :: "pydict \<Rightarrow> error + unit" where
  "check_description_length ad_cfg =
     (case getitem ad_cfg ''description'' of Inl e \<Rightarrow> Inl e | Inr d \<Rightarrow>
        (case py_len d of Inl e \<Rightarrow> Inl e | Inr n \<Rightarrow> ensure (n \<le> 4000) DescriptionTooLong))"

text \<open>The three local helpers of lines 265-272.\<close>

definition assert_one_of :: "pydict \<Rightarrow> string \<Rightarrow> string list \<Rightarrow> error + unit" where
  "assert_one_of ad_cfg path allowed =
     (case in_str_set (safe_get (VDict ad_cfg) (split_on CHR ''.'' path)) allowed of
        Inl e \<Rightarrow> Inl e
      | Inr b \<Rightarrow> ensure b (MustBeOneOf path allowed))"

definition assert_min_len :: "pydict \<Rightarrow> string \<Rightarrow> nat \<Rightarrow> error + unit" where
  "assert_min_len ad_cfg path minlen =
     (case py_len (safe_get (VDict ad_cfg) (split_on CHR ''.'' path)) of
        Inl e \<Rightarrow> Inl e
      | Inr n \<Rightarrow> ensure (n \<ge> minlen) (MinLen path minlen))"

definition assert_has_value :: "pydict \<Rightarrow> string \<Rightarrow> error + unit" where
  "assert_has_value ad_cfg path =
     ensure (truthy (safe_get (VDict ad_cfg) (split_on CHR ''.'' path))) (NotSpecified path)"

text \<open>Lines 279-282: the conditional price rule.\<close>

definition check_price :: "pydict \<Rightarrow> error + unit" where
  "check_price ad_cfg =
     (case getitem ad_cfg ''price_type'' of Inl e \<Rightarrow> Inl e | Inr pt \<Rightarrow>
        if pt = VStr ''GIVE_AWAY'' then
          ensure (\<not> truthy (safe_get (VDict ad_cfg) [''price''])) PriceForGiveAway
        else if pt = VStr ''FIXED'' then assert_has_value ad_cfg ''price''
        else Inr ())"

text \<open>Statements in sequence: the second runs when the first did not raise.\<close>

definition andthen :: "error + unit \<Rightarrow> error + 'a \<Rightarrow> error + 'a" where
  "andthen m k = (case m of Inl e \<Rightarrow> Inl e | Inr u \<Rightarrow> k)"

text \<open>Lines 262-285, on the definition whose description was composed in line 261.\<close>

definition validate :: "pydict \<Rightarrow> error + unit" where
  "validate ad_cfg =
     andthen (check_description_length ad_cfg)
    (andthen (assert_one_of ad_cfg ''type'' [''OFFER'', ''WANTED''])
    (andthen (assert_min_len ad_cfg ''title'' 10)
    (andthen (assert_has_value ad_cfg ''description'')
    (andthen (assert_one_of ad_cfg ''price_type'' [''FIXED'', ''NEGOTIABLE'', ''GIVE_AWAY'', ''NOT_APPLICABLE''])
    (andthen (check_price ad_cfg)
    (andthen (assert_one_of ad_cfg ''shipping_type'' [''PICKUP'', ''SHIPPING'', ''NOT_APPLICABLE''])
    (andthen (assert_has_value ad_cfg ''contact.name'')
             (assert_has_value ad_cfg ''republication_interval''))))))))"

text \<open>
  The checks of lines 262-285 in the order of the source, and the first failure of a
  list of results; both serve to state the order in which \<open>validate\<close> reports.
\<close>

definition validation_rules :: "pydict \<Rightarrow> (error + unit) list" where
  "validation_rules ad_cfg =
     [check_description_length ad_cfg,
      assert_one_of ad_cfg ''type'' [''OFFER'', ''WANTED''],
      assert_min_len ad_cfg ''title'' 10,
      assert_has_value ad_cfg ''description'',
      assert_one_of ad_cfg ''price_type'' [''FIXED'', ''NEGOTIABLE'', ''GIVE_AWAY'', ''NOT_APPLICABLE''],
      check_price ad_cfg,
      assert_one_of ad_cfg ''shipping_type'' [''PICKUP'', ''SHIPPING'', ''NOT_APPLICABLE''],
      assert_has_value ad_cfg ''contact.name'',
      assert_has_value ad_cfg ''republication_interval'']"

fun first_failure :: "(error + unit) list \<Rightarrow> error + unit" where
  "first_failure [] = Inr ()"
| "first_failure (m # ms) = (case m of Inl e \<Rightarrow> Inl e | Inr u \<Rightarrow> first_failure ms)"

section \<open>Derived fields\<close>

text \<open>
  \<open>int(v)\<close>, lines 287-288. The conversion of a string (Python's builtin) is the
  parameter \<open>int_of_str\<close>, \<open>None\<close> where it raises \<open>ValueError\<close>.
\<close>

fun py_int :: "(string \<Rightarrow> int option) \<Rightarrow> pyval \<Rightarrow> error + int" where
  "py_int int_of_str (VInt n) = Inr n"
| "py_int int_of_str (VBool b) = Inr (if b then 1 else 0)"
| "py_int int_of_str (VStr s) = (case int_of_str s of None \<Rightarrow> Inl ValueError | Some n \<Rightarrow> Inr n)"
| "py_int int_of_str v = Inl TypeError"

definition normalize_id :: "(string \<Rightarrow> int option) \<Rightarrow> pydict \<Rightarrow> error + pydict" where
  "normalize_id int_of_str ad_cfg =
     (case getitem ad_cfg ''id'' of Inl e \<Rightarrow> Inl e | Inr i \<Rightarrow>
        if truthy i then
          (case py_int int_of_str i of Inl e \<Rightarrow> Inl e
           | Inr n \<Rightarrow> Inr (setitem ad_cfg ''id'' (VInt n)))
        else Inr ad_cfg)"

text \<open>
  \<open>self.categories.get(v, v)\<close> on the table \<open>dict[str, str]\<close>: the key is hashed first,
  which raises for a list or a dictionary; a key that is not a string is not in the table.
\<close>

fun categories_get :: "(string \<times> string) list \<Rightarrow> pyval \<Rightarrow> error + pyval" where
  "categories_get table (VStr s) = Inr (case map_of table s of None \<Rightarrow> VStr s | Some code \<Rightarrow> VStr code)"
| "categories_get table (VList xs) = Inl TypeError"
| "categories_get table (VDict d) = Inl TypeError"
| "categories_get table v = Inr v"

text \<open>Lines 290-291.\<close>

definition resolve_category :: "(string \<times> string) list \<Rightarrow> pydict \<Rightarrow> error + pydict" where
  "resolve_category table ad_cfg =
     (case getitem ad_cfg ''category'' of Inl e \<Rightarrow> Inl e | Inr c \<Rightarrow>
        if truthy c then
          (case categories_get table c of Inl e \<Rightarrow> Inl e
           | Inr code \<Rightarrow> Inr (setitem ad_cfg ''category'' code))
        else Inr ad_cfg)"

text \<open>
  Lines 332-334 of \<open>load_config\<close>: the bundled table, updated with the user's entries
  when \<open>config["categories"]\<close> is truthy (\<open>None\<close> stands for a missing or null entry).
\<close>

definition dict_update :: "('k \<times> 'v) list \<Rightarrow> ('k \<times> 'v) list \<Rightarrow> ('k \<times> 'v) list" where
  "dict_update d other = fold (\<lambda>(k, v) acc. AList.update k v acc) other d"

definition load_categories :: "(string \<times> string) list \<Rightarrow> (string \<times> string) list option \<Rightarrow> (string \<times> string) list" where
  "load_categories bundled config_categories =
     (case config_categories of
        None \<Rightarrow> bundled
      | Some user \<Rightarrow> if user \<noteq> [] then dict_update bundled user else bundled)"

text \<open>
  Lines 293-294. \<open>str(round(utils.parse_decimal(v), 2))\<close> is the parameter \<open>format_costs\<close>.
\<close>

definition normalize_shipping_costs :: "(pyval \<Rightarrow> error + string) \<Rightarrow> pydict \<Rightarrow> error + pydict" where
  "normalize_shipping_costs format_costs ad_cfg =
     (case getitem ad_cfg ''shipping_costs'' of Inl e \<Rightarrow> Inl e | Inr c \<Rightarrow>
        if truthy c then
          (case format_costs c of Inl e \<Rightarrow> Inl e
           | Inr s \<Rightarrow> Inr (setitem ad_cfg ''shipping_costs'' (VStr s)))
        else Inr ad_cfg)"

section \<open>Images\<close>

text \<open>
  \<open>os.path.splitext(p)[1]\<close> with \<open>/\<close> as separator: the part of the last path component
  from its last dot on, empty when the component has no dot or only dots before it.
\<close>

definition splitext_ext :: "string \<Rightarrow> string" where
  "splitext_ext p =
     (let name = rev (takeWhile (\<lambda>c. c \<noteq> CHR ''/'') (rev p));
          ext_rev = takeWhile (\<lambda>c. c \<noteq> CHR ''.'') (rev name);
          stem = take (length name - length ext_rev - 1) name
      in if CHR ''.'' \<in> set name \<and> list_ex (\<lambda>c. c \<noteq> CHR ''.'') stem
         then CHR ''.'' # rev ext_rev else [])"

text \<open>\<open>str.lower\<close> on the letters A-Z; no other character lowers to a letter of the allow-list.\<close>

definition ascii_lower :: "char \<Rightarrow> char" where
  "ascii_lower c =
     (case map_of (zip ''ABCDEFGHIJKLMNOPQRSTUVWXYZ'' ''abcdefghijklmnopqrstuvwxyz'') c of
        None \<Rightarrow> c | Some l \<Rightarrow> l)"

definition lower :: "string \<Rightarrow> string" where
  "lower s = map ascii_lower s"

text \<open>
  Lines 301-307: the matches of one pattern, collected into the set \<open>pattern_images\<close>
  (a list without duplicates). \<open>isabs\<close> is \<open>os.path.isabs\<close>, \<open>abspath\<close> is
  \<open>abspath(image_file, relative_to = ad_file)\<close> (utils, not under src/).
\<close>

fun collect_pattern_images ::
  "(string \<Rightarrow> bool) \<Rightarrow> (string \<Rightarrow> string) \<Rightarrow> string list \<Rightarrow> string list \<Rightarrow> error + string list" where
  "collect_pattern_images isabs abspath [] pattern_images = Inr pattern_images"
| "collect_pattern_images isabs abspath (image_file # rest) pattern_images =
     (case ensure (lower (splitext_ext image_file) \<in> set [''.gif'', ''.jpg'', ''.jpeg'', ''.png''])
                  (UnsupportedImageType image_file) of
        Inl e \<Rightarrow> Inl e
      | Inr u \<Rightarrow> collect_pattern_images isabs abspath rest
                  (List.insert (if isabs image_file then image_file else abspath image_file) pattern_images))"

text \<open>
  Lines 298-308: the loop over the patterns. \<open>glob\<close> is the glob of one pattern in the
  directory of the ad file; \<open>sorted\<close> of a set of strings is \<open>sort\<close> of its elements.
\<close>

fun images_loop ::
  "(string \<Rightarrow> string list) \<Rightarrow> (string \<Rightarrow> bool) \<Rightarrow> (string \<Rightarrow> string) \<Rightarrow> pyval list \<Rightarrow> string list
     \<Rightarrow> error + string list" where
  "images_loop glob isabs abspath [] images = Inr images"
| "images_loop glob isabs abspath (VStr image_pattern # rest) images =
     (case collect_pattern_images isabs abspath (glob image_pattern) [] of
        Inl e \<Rightarrow> Inl e
      | Inr pattern_images \<Rightarrow> images_loop glob isabs abspath rest (images @ sort pattern_images))"
| "images_loop glob isabs abspath (v # rest) images = Inl TypeError"

text \<open>\<open>list(dict.fromkeys(xs))\<close>: the keys in the order of their first insertion.\<close>

definition fromkeys :: "'a list \<Rightarrow> 'a list" where
  "fromkeys xs = fold (\<lambda>x keys. if x \<in> set keys then keys else keys @ [x]) xs []"

text \<open>\<open>for x in v\<close>: the elements of a list, the characters of a string, the keys of a dictionary.\<close>

fun iter_items :: "pyval \<Rightarrow> error + pyval list" where
  "iter_items (VList xs) = Inr xs"
| "iter_items (VStr s) = Inr (map (\<lambda>c. VStr [c]) s)"
| "iter_items (VDict d) = Inr (map (\<lambda>kv. VStr (fst kv)) d)"
| "iter_items v = Inl TypeError"

text \<open>Lines 296-310.\<close>

definition resolve_images ::
  "(string \<Rightarrow> string list) \<Rightarrow> (string \<Rightarrow> bool) \<Rightarrow> (string \<Rightarrow> string) \<Rightarrow> pydict \<Rightarrow> error + pydict" where
  "resolve_images glob isabs abspath ad_cfg =
     (case getitem ad_cfg ''images'' of Inl e \<Rightarrow> Inl e | Inr v \<Rightarrow>
        if truthy v then
          (case iter_items v of Inl e \<Rightarrow> Inl e | Inr patterns \<Rightarrow>
             (case images_loop glob isabs abspath patterns [] of Inl e \<Rightarrow> Inl e | Inr images \<Rightarrow>
                (case ensure (images \<noteq> [] \<or> \<not> truthy v) NoImagesFound of Inl e \<Rightarrow> Inl e
                 | Inr u \<Rightarrow> Inr (setitem ad_cfg ''images'' (VList (map VStr (fromkeys images)))))))
        else Inr ad_cfg)"

section \<open>Loading the ads\<close>

text \<open>The attributes of \<open>KleinanzeigenBot\<close> and of its configuration that the engine reads.\<close>

record bot =
  ads_selector :: string
  categories :: "(string \<times> string) list"
  ad_files_patterns :: "string list"
  data_root_dir :: string
  descr_prefix :: string
  descr_suffix :: string
  delete_old_ads :: bool
  delete_ads_by_title :: bool

text \<open>
  The collaborators of \<open>load_ads\<close>: the clock, the file store, the glob library and the
  helpers of \<open>utils\<close>, which is not under src/. \<open>merge_defaults\<close> stands for the two calls
  of \<open>apply_defaults\<close> in lines 232-233.
\<close>

record world =
  utcnow :: int
  parse_datetime :: "pyval \<Rightarrow> error + int"
  int_of_str :: "string \<Rightarrow> int option"
  format_costs :: "pyval \<Rightarrow> error + string"
  glob_in :: "string \<Rightarrow> string \<Rightarrow> string list"
  isabs :: "string \<Rightarrow> bool"
  abspath :: "string \<Rightarrow> string \<Rightarrow> string"
  load_dict :: "string \<Rightarrow> error + pydict"
  merge_defaults :: "pydict \<Rightarrow> pydict"

text \<open>\<open>s.endswith(suffix)\<close>.\<close>

definition endswith :: "string \<Rightarrow> string \<Rightarrow> bool" where
  "endswith s sfx = (length sfx \<le> length s \<and> drop (length s - length sfx) s = sfx)"

text \<open>Lines 213-218: the discovery of the ad files; \<open>ad_files\<close> is the set being built.\<close>

fun add_ad_files :: "(string \<Rightarrow> string) \<Rightarrow> string list \<Rightarrow> string list \<Rightarrow> string list" where
  "add_ad_files to_abs [] ad_files = ad_files"
| "add_ad_files to_abs (ad_file # rest) ad_files =
     add_ad_files to_abs rest
       (if \<not> endswith ad_file ''ad_fields.yaml'' then List.insert (to_abs ad_file) ad_files else ad_files)"

fun discover_loop :: "(string \<Rightarrow> string list) \<Rightarrow> (string \<Rightarrow> string) \<Rightarrow> string list \<Rightarrow> string list \<Rightarrow> string list" where
  "discover_loop glob to_abs [] ad_files = ad_files"
| "discover_loop glob to_abs (file_pattern # rest) ad_files =
     discover_loop glob to_abs rest (add_ad_files to_abs (glob file_pattern) ad_files)"

definition discover :: "bot \<Rightarrow> world \<Rightarrow> string list" where
  "discover self w =
     discover_loop (glob_in w (data_root_dir self)) (\<lambda>f. abspath w f (data_root_dir self))
       (ad_files_patterns self) []"

text \<open>
  Lines 235-316: the body of the loop for one ad file, from the merged definition on.
  \<open>None\<close> is a \<open>continue\<close>; \<open>Some\<close> holds the resolved definition that is appended.
\<close>

definition load_ad :: "bot \<Rightarrow> world \<Rightarrow> bool \<Rightarrow> bool \<Rightarrow> string \<Rightarrow> pydict \<Rightarrow> error + pydict option" where
  "load_ad self w ignore_inactive check_id ad_file ad_cfg =
     (case selected (ads_selector self) ignore_inactive check_id (parse_datetime w) (utcnow w) ad_cfg of
        Inl e \<Rightarrow> Inl e
      | Inr False \<Rightarrow> Inr None
      | Inr True \<Rightarrow>
     (case compose_description (descr_prefix self) (descr_suffix self) ad_cfg of Inl e \<Rightarrow> Inl e | Inr c1 \<Rightarrow>
     (case validate c1 of Inl e \<Rightarrow> Inl e | Inr u \<Rightarrow>
     (case normalize_id (int_of_str w) c1 of Inl e \<Rightarrow> Inl e | Inr c2 \<Rightarrow>
     (case resolve_category (categories self) c2 of Inl e \<Rightarrow> Inl e | Inr c3 \<Rightarrow>
     (case normalize_shipping_costs (format_costs w) c3 of Inl e \<Rightarrow> Inl e | Inr c4 \<Rightarrow>
     (case resolve_images (glob_in w ad_file) (isabs w) (\<lambda>f. abspath w f ad_file) c4 of
        Inl e \<Rightarrow> Inl e
      | Inr c5 \<Rightarrow> Inr (Some c5))))))))"

text \<open>Lines 228-316: the loop over the sorted files; the triples are (file, resolved, raw).\<close>

fun load_loop :: "bot \<Rightarrow> world \<Rightarrow> bool \<Rightarrow> bool \<Rightarrow> string list \<Rightarrow> error + (string \<times> pydict \<times> pydict) list" where
  "load_loop self w ignore_inactive check_id [] = Inr []"
| "load_loop self w ignore_inactive check_id (ad_file # rest) =
     (case load_dict w ad_file of Inl e \<Rightarrow> Inl e | Inr ad_cfg_orig \<Rightarrow>
     (case load_ad self w ignore_inactive check_id ad_file (merge_defaults w ad_cfg_orig) of
        Inl e \<Rightarrow> Inl e
      | Inr r \<Rightarrow>
     (case load_loop self w ignore_inactive check_id rest of Inl e \<Rightarrow> Inl e | Inr ads \<Rightarrow>
        Inr (case r of None \<Rightarrow> ads | Some ad_cfg \<Rightarrow> (ad_file, ad_cfg, ad_cfg_orig) # ads))))"

definition load_ads :: "bot \<Rightarrow> world \<Rightarrow> bool \<Rightarrow> bool \<Rightarrow> error + (string \<times> pydict \<times> pydict) list" where
  "load_ads self w ignore_inactive check_id =
     (let ad_files = discover self w
      in if ad_files = [] then Inr [] else load_loop self w ignore_inactive check_id (sort ad_files))"

section \<open>Deleting and publishing\<close>

text \<open>
  The site as the browser shows it during one action: whether the limit of free ads is
  reached (line 446), the ads it lists in the by-title mode (line 408), the filling and
  submission of the form (lines 451-574, which read the resolved definition and change
  neither dictionary), the identifier in the confirmation URL (lines 581-582), and the
  clock of line 576 as \<open>datetime.utcnow().isoformat()\<close>.
\<close>

record site =
  check_free_ad_limit :: "error + unit"
  published_ads :: "(int \<times> string) list"
  fill_form :: "pydict \<Rightarrow> error + unit"
  confirmed_ad_id :: "error + int"
  utcnow_iso :: string

text \<open>
  \<open>delete_ad\<close>, lines 400-430. The requests to the site succeed here; what remains are the
  reads of the definition and the assignment of line 429. \<open>by_title\<close> is
  \<open>self.delete_ads_by_title\<close>, \<open>published\<close> the list the site returns in that mode.
\<close>

definition delete_ad :: "bool \<Rightarrow> (int \<times> string) list \<Rightarrow> pydict \<Rightarrow> error + pydict" where
  "delete_ad by_title published ad_cfg =
     (case getitem ad_cfg ''title'' of Inl e \<Rightarrow> Inl e | Inr t \<Rightarrow>
     (case (if by_title then
              (if published = [] then Inr ()
               else (case getitem ad_cfg ''id'' of Inl e \<Rightarrow> Inl e | Inr i \<Rightarrow> Inr ()))
            else (case getitem ad_cfg ''id'' of Inl e \<Rightarrow> Inl e | Inr i \<Rightarrow> Inr ())) of
        Inl e \<Rightarrow> Inl e
      | Inr u \<Rightarrow> Inr (setitem ad_cfg ''id'' VNone)))"

text \<open>
  \<open>delete_ads\<close>, lines 387-398: the loop passes the resolved definition to \<open>delete_ad\<close>
  and ignores the raw one (\<open>for (ad_file, ad_cfg, _) in ad_cfgs\<close>); nothing is saved. The
  result is the list of triples after the loop.
\<close>

fun delete_ads ::
  "bool \<Rightarrow> (int \<times> string) list \<Rightarrow> (string \<times> pydict \<times> pydict) list
     \<Rightarrow> error + (string \<times> pydict \<times> pydict) list" where
  "delete_ads by_title published [] = Inr []"
| "delete_ads by_title published ((ad_file, ad_cfg, ad_cfg_orig) # rest) =
     (case getitem ad_cfg ''title'' of Inl e \<Rightarrow> Inl e | Inr t \<Rightarrow>
     (case delete_ad by_title published ad_cfg of Inl e \<Rightarrow> Inl e | Inr ad_cfg' \<Rightarrow>
     (case delete_ads by_title published rest of Inl e \<Rightarrow> Inl e | Inr rest' \<Rightarrow>
        Inr ((ad_file, ad_cfg', ad_cfg_orig) # rest'))))"

text \<open>
  \<open>publish_ad\<close>, lines 445-587. The result is the resolved definition, the raw definition,
  and what \<open>save_dict\<close> writes (file and content).
\<close>

definition publish_ad ::
  "bot \<Rightarrow> site \<Rightarrow> string \<Rightarrow> pydict \<Rightarrow> pydict \<Rightarrow> error + pydict \<times> pydict \<times> (string \<times> pydict)" where
  "publish_ad self web ad_file ad_cfg ad_cfg_orig =
     (case check_free_ad_limit web of Inl e \<Rightarrow> Inl e | Inr u \<Rightarrow>
     (case (if delete_old_ads self
            then delete_ad (delete_ads_by_title self) (published_ads web) ad_cfg
            else Inr ad_cfg) of
        Inl e \<Rightarrow> Inl e
      | Inr cfg \<Rightarrow>
     (case fill_form web cfg of Inl e \<Rightarrow> Inl e | Inr u \<Rightarrow>
     (let orig1 = setitem ad_cfg_orig ''updated_on'' (VStr (utcnow_iso web)) in
     (case getitem cfg ''created_on'' of Inl e \<Rightarrow> Inl e | Inr c \<Rightarrow>
     (case (if truthy c then Inr False
            else (case getitem cfg ''id'' of Inl e \<Rightarrow> Inl e | Inr i \<Rightarrow> Inr (\<not> truthy i))) of
        Inl e \<Rightarrow> Inl e
      | Inr first \<Rightarrow>
     (let orig2 = (if first then setitem orig1 ''created_on'' (VStr (utcnow_iso web)) else orig1) in
     (case confirmed_ad_id web of Inl e \<Rightarrow> Inl e | Inr ad_id \<Rightarrow>
     (let orig3 = setitem orig2 ''id'' (VInt ad_id)
      in Inr (cfg, orig3, (ad_file, orig3)))))))))))"

section \<open>Defaults merge\<close>

text \<open>
  Modelled from the spec: \<open>utils.apply_defaults\<close> is not under src/. A layer is a source
  mapping with an override predicate and an ignore predicate.
\<close>

record layer =
  layer_source :: pydict
  layer_override :: "string \<Rightarrow> pyval \<Rightarrow> bool"
  layer_ignore :: "string \<Rightarrow> pyval \<Rightarrow> bool"

text \<open>
  Modelled from the spec: the treatment of one field of a layer's source (the body of the
  loop of \<open>apply_defaults\<close>, not under src/). A field the ignore predicate excludes is
  skipped; a field absent from the accumulating result is copied in; a field present whose
  current value the override predicate accepts is replaced by the layer's value; any other
  field is kept.
\<close>

definition merge_field :: "layer \<Rightarrow> string \<times> pyval \<Rightarrow> pydict \<Rightarrow> pydict" where
  "merge_field l kv acc =
     (if layer_ignore l (fst kv) (snd kv) then acc
      else (case map_of acc (fst kv) of
              None \<Rightarrow> setitem acc (fst kv) (snd kv)
            | Some tv \<Rightarrow> if layer_override l (fst kv) tv then setitem acc (fst kv) (snd kv) else acc))"

text \<open>
  Modelled from the spec: \<open>apply_defaults\<close> (utils, not under src/) for one layer, every
  field of the layer's source in order.
\<close>

definition apply_defaults :: "layer \<Rightarrow> pydict \<Rightarrow> pydict" where
  "apply_defaults l target = fold (merge_field l) (layer_source l) target"

text \<open>
  Modelled from the spec: \<open>merge(raw, *layers)\<close>, the layers applied in order (the
  successive calls of \<open>apply_defaults\<close>, which is not under src/).
\<close>

definition merge :: "pydict \<Rightarrow> layer list \<Rightarrow> pydict" where
  "merge raw layers = fold apply_defaults layers raw"

text \<open>
  The two layers of lines 232-233: the global ad defaults, which override an empty string
  and leave \<open>description\<close> out, then the schema's field-default table.
\<close>

definition ad_layers :: "pydict \<Rightarrow> pydict \<Rightarrow> layer list" where
  "ad_layers ad_defaults ad_fields =
     [\<lparr>layer_source = ad_defaults,
       layer_override = (\<lambda>k v. v = VStr []),
       layer_ignore = (\<lambda>k v. k = ''description'')\<rparr>,
      \<lparr>layer_source = ad_fields,
       layer_override = (\<lambda>k v. False),
       layer_ignore = (\<lambda>k v. False)\<rparr>]"

section \<open>Dictionary lemmas\<close>

lemma getitem_setitem_same: "getitem (setitem d k v) k = Inr v"
  by (simp add: getitem_def setitem_def update_conv')

lemma getitem_setitem_other: "k' \<noteq> k \<Longrightarrow> getitem (setitem d k v) k' = getitem d k'"
  by (simp add: getitem_def setitem_def update_conv')

lemma setitem_same_value: "map_of d k = Some v \<Longrightarrow> setitem d k v = d"
  unfolding setitem_def by (induction d) (auto split: if_splits)

section \<open>The due selection\<close>

lemma timedelta_days_floor:
  "timedelta_days d * usec_per_day \<le> d \<and> d < (timedelta_days d + 1) * usec_per_day"
proof -
  define q r where "q = d div usec_per_day" and "r = d mod usec_per_day"
  have pos: "0 < usec_per_day" by (simp add: usec_per_day_def)
  have d: "d = q * usec_per_day + r" by (simp add: q_def r_def)
  have "0 \<le> r" "r < usec_per_day" using pos by (simp_all add: r_def)
  then have "q * usec_per_day \<le> d \<and> d < q * usec_per_day + usec_per_day"
    using d by linarith
  then show ?thesis
    by (simp add: timedelta_days_def q_def algebra_simps)
qed

text \<open>
  C1. Under the selector \<open>due\<close>, for an ad that passes the filter on \<open>active\<close> (the filter
  that precedes every mode): when neither \<open>updated_on\<close> nor \<open>created_on\<close> is set, the ad is
  selected; otherwise, with the last update taken from \<open>updated_on\<close> if set and from
  \<open>created_on\<close> if not, and the age in days the floor of the time elapsed since then, the ad
  is selected if and only if the age exceeds \<open>republication_interval\<close>. The instance after it
  runs the interval 7 on ads last updated 8 days, 7 days and one microsecond less than 8 days
  ago, and on an ad with no date.
\<close>

theorem due_selection:
  assumes upd: "getitem ad_cfg ''updated_on'' = Inr u"
      and cre: "getitem ad_cfg ''created_on'' = Inr c"
      and act: "ignore_inactive \<longrightarrow> (\<exists>a. getitem ad_cfg ''active'' = Inr a \<and> truthy a)"
  shows "(\<not> truthy u \<and> \<not> truthy c \<longrightarrow>
            due_skipped parse now ad_cfg = Inr False \<and>
            selected ''due'' ignore_inactive check_id parse now ad_cfg = Inr True)
       \<and> (\<forall>t n. (truthy u \<or> truthy c) \<and> parse (if truthy u then u else c) = Inr t \<and>
                 getitem ad_cfg ''republication_interval'' = Inr (VInt n) \<longrightarrow>
            due_skipped parse now ad_cfg = Inr (\<not> timedelta_days (now - t) > n) \<and>
            selected ''due'' ignore_inactive check_id parse now ad_cfg
              = Inr (timedelta_days (now - t) > n) \<and>
            timedelta_days (now - t) * usec_per_day \<le> now - t \<and>
            now - t < (timedelta_days (now - t) + 1) * usec_per_day)"
proof -
  have sel: "selected ''due'' ignore_inactive check_id parse now ad_cfg
      = (case due_skipped parse now ad_cfg of Inl e \<Rightarrow> Inl e | Inr s \<Rightarrow> Inr (\<not> s))"
    using act by (auto simp: selected_def)
  have none: "\<not> truthy u \<Longrightarrow> \<not> truthy c \<Longrightarrow> due_skipped parse now ad_cfg = Inr False"
    using upd cre by (simp add: due_skipped_def last_updated_on_def)
  have some: "due_skipped parse now ad_cfg = Inr (timedelta_days (now - t) \<le> n)"
    if "truthy u \<or> truthy c" "parse (if truthy u then u else c) = Inr t"
       "getitem ad_cfg ''republication_interval'' = Inr (VInt n)" for t n
    using that upd cre by (auto simp: due_skipped_def last_updated_on_def)
  show ?thesis
    using none some timedelta_days_floor
    by (simp add: sel not_less not_le)
qed

theorem due_selection_witness:
  "selected ''due'' True True (\<lambda>v. Inr 0) (8 * usec_per_day)
     [(''active'', VBool True), (''updated_on'', VStr ''1970-01-01T00:00:00''),
      (''created_on'', VNone), (''republication_interval'', VInt 7)] = Inr True
   \<and> selected ''due'' True True (\<lambda>v. Inr 0) (7 * usec_per_day)
     [(''active'', VBool True), (''updated_on'', VStr ''1970-01-01T00:00:00''),
      (''created_on'', VNone), (''republication_interval'', VInt 7)] = Inr False
   \<and> selected ''due'' True True (\<lambda>v. Inr 0) (8 * usec_per_day - 1)
     [(''active'', VBool True), (''updated_on'', VNone),
      (''created_on'', VStr ''1970-01-01T00:00:00''), (''republication_interval'', VInt 7)] = Inr False
   \<and> selected ''due'' True True (\<lambda>v. Inr 0) 0
     [(''active'', VBool True), (''updated_on'', VNone),
      (''created_on'', VNone), (''republication_interval'', VInt 7)] = Inr True"
proof -
  define ad where "ad = [(''active'', VBool True), (''updated_on'', VStr ''1970-01-01T00:00:00''),
      (''created_on'', VNone), (''republication_interval'', VInt 7)]"
  define ad2 where "ad2 = [(''active'', VBool True), (''updated_on'', VNone),
      (''created_on'', VStr ''1970-01-01T00:00:00''), (''republication_interval'', VInt 7)]"
  define ad3 where "ad3 = [(''active'', VBool True), (''updated_on'', VNone),
      (''created_on'', VNone), (''republication_interval'', VInt 7)]"
  have u: "getitem ad ''updated_on'' = Inr (VStr ''1970-01-01T00:00:00'')"
   and c: "getitem ad ''created_on'' = Inr VNone"
   and a: "True \<longrightarrow> (\<exists>a. getitem ad ''active'' = Inr a \<and> truthy a)"
   and r: "getitem ad ''republication_interval'' = Inr (VInt 7)"
    by (simp_all add: ad_def getitem_def)
  have u2: "getitem ad2 ''updated_on'' = Inr VNone"
   and c2: "getitem ad2 ''created_on'' = Inr (VStr ''1970-01-01T00:00:00'')"
   and a2: "True \<longrightarrow> (\<exists>a. getitem ad2 ''active'' = Inr a \<and> truthy a)"
   and r2: "getitem ad2 ''republication_interval'' = Inr (VInt 7)"
    by (simp_all add: ad2_def getitem_def)
  have u3: "getitem ad3 ''updated_on'' = Inr VNone"
   and c3: "getitem ad3 ''created_on'' = Inr VNone"
   and a3: "True \<longrightarrow> (\<exists>a. getitem ad3 ''active'' = Inr a \<and> truthy a)"
    by (simp_all add: ad3_def getitem_def)
  have d8: "timedelta_days (8 * usec_per_day - 0) = 8"
   and d7: "timedelta_days (7 * usec_per_day - 0) = 7"
   and d79: "timedelta_days (8 * usec_per_day - 1 - 0) = 7"
    by (simp_all add: timedelta_days_def usec_per_day_def)
  have "selected ''due'' True True (\<lambda>v. Inr 0) (8 * usec_per_day) ad = Inr True"
    using due_selection [OF u c a, of "\<lambda>v. Inr 0" "8 * usec_per_day" True] r d8 by simp
  moreover have "selected ''due'' True True (\<lambda>v. Inr 0) (7 * usec_per_day) ad = Inr False"
    using due_selection [OF u c a, of "\<lambda>v. Inr 0" "7 * usec_per_day" True] r d7 by simp
  moreover have "selected ''due'' True True (\<lambda>v. Inr 0) (8 * usec_per_day - 1) ad2 = Inr False"
    using due_selection [OF u2 c2 a2, of "\<lambda>v. Inr 0" "8 * usec_per_day - 1" True] r2 d79 by simp
  moreover have "selected ''due'' True True (\<lambda>v. Inr 0) 0 ad3 = Inr True"
    using due_selection [OF u3 c3 a3, of "\<lambda>v. Inr 0" 0 True] by simp
  ultimately show ?thesis
    unfolding ad_def ad2_def ad3_def by blast
qed

section \<open>Validation\<close>

lemma validate_first_failure_eq: "validate ad_cfg = first_failure (validation_rules ad_cfg)"
  by (simp add: validate_def validation_rules_def andthen_def split: sum.splits)

lemma first_failure_at:
  "k < length ms \<Longrightarrow> \<forall>j<k. ms ! j = Inr () \<Longrightarrow> ms ! k = Inl e \<Longrightarrow> first_failure ms = Inl e"
proof (induction ms arbitrary: k)
  case Nil
  then show ?case by simp
next
  case (Cons m ms)
  show ?case
  proof (cases k)
    case 0
    with Cons.prems show ?thesis by simp
  next
    case (Suc k')
    from Cons.prems Suc have hd: "m = Inr ()" by auto
    from Cons.prems Suc have "k' < length ms" "\<forall>j<k'. ms ! j = Inr ()" "ms ! k' = Inl e"
      by auto
    then have "first_failure ms = Inl e" by (rule Cons.IH)
    with hd show ?thesis by simp
  qed
qed

lemma first_failure_none:
  "\<forall>j<length ms. ms ! j = Inr () \<Longrightarrow> first_failure ms = Inr ()"
proof (induction ms)
  case Nil
  then show ?case by simp
next
  case (Cons m ms)
  from Cons.prems have "m = Inr ()" by auto
  moreover from Cons.prems have "\<forall>j<length ms. ms ! j = Inr ()" by auto
  ultimately show ?case using Cons.IH by simp
qed

text \<open>
  C2 (amended). Validation raises on the first broken check, and the checks run in this
  order: the description (prefix and suffix applied) has at most 4000 characters; \<open>type\<close>
  is OFFER or WANTED; \<open>title\<close> has at least 10 characters; \<open>description\<close> is not empty;
  \<open>price_type\<close> is one of its four values; the conditional price rule; \<open>shipping_type\<close>
  is one of its three values; \<open>contact.name\<close> is not empty; \<open>republication_interval\<close>
  is present. So an ad whose description is too long reports that failure whatever its
  \<open>type\<close>, and an ad with a wrong \<open>type\<close> whose description is within the limit reports
  the failure of \<open>type\<close>.
\<close>

theorem validate_order:
  "(\<forall>k e. k < length (validation_rules ad_cfg) \<and>
           (\<forall>j<k. validation_rules ad_cfg ! j = Inr ()) \<and>
           validation_rules ad_cfg ! k = Inl e \<longrightarrow> validate ad_cfg = Inl e)
   \<and> ((\<forall>j<length (validation_rules ad_cfg). validation_rules ad_cfg ! j = Inr ()) \<longrightarrow>
        validate ad_cfg = Inr ())
   \<and> (check_description_length ad_cfg = Inl (AssertionError DescriptionTooLong) \<longrightarrow>
        validate ad_cfg = Inl (AssertionError DescriptionTooLong))
   \<and> (check_description_length ad_cfg = Inr () \<and>
      assert_one_of ad_cfg ''type'' [''OFFER'', ''WANTED'']
        = Inl (AssertionError (MustBeOneOf ''type'' [''OFFER'', ''WANTED''])) \<longrightarrow>
        validate ad_cfg = Inl (AssertionError (MustBeOneOf ''type'' [''OFFER'', ''WANTED''])))"
proof -
  have "validate ad_cfg = Inl e"
    if "k < length (validation_rules ad_cfg)" "\<forall>j<k. validation_rules ad_cfg ! j = Inr ()"
       "validation_rules ad_cfg ! k = Inl e" for k e
    using first_failure_at [OF that] by (simp add: validate_first_failure_eq)
  moreover have "validate ad_cfg = Inr ()"
    if "\<forall>j<length (validation_rules ad_cfg). validation_rules ad_cfg ! j = Inr ()"
    using first_failure_none [OF that] by (simp add: validate_first_failure_eq)
  moreover have "validate ad_cfg = Inl (AssertionError DescriptionTooLong)"
    if "check_description_length ad_cfg = Inl (AssertionError DescriptionTooLong)"
    using that by (simp add: validate_def andthen_def)
  moreover have "validate ad_cfg = Inl (AssertionError (MustBeOneOf ''type'' [''OFFER'', ''WANTED'']))"
    if "check_description_length ad_cfg = Inr ()"
       "assert_one_of ad_cfg ''type'' [''OFFER'', ''WANTED'']
          = Inl (AssertionError (MustBeOneOf ''type'' [''OFFER'', ''WANTED'']))"
    using that by (simp add: validate_def andthen_def)
  ultimately show ?thesis by blast
qed

text \<open>
  The order stated with the length limit as part of the third rule fails: this ad has a
  \<open>type\<close> outside the allowed set and a description of 4001 characters, and the failure
  reported is the one of the description, not the one of \<open>type\<close>.
\<close>

theorem validate_order_counterexample:
  "assert_one_of [(''type'', VStr ''RENT''), (''description'', VStr (replicate 4001 CHR ''x''))]
       ''type'' [''OFFER'', ''WANTED'']
     = Inl (AssertionError (MustBeOneOf ''type'' [''OFFER'', ''WANTED'']))
   \<and> check_description_length [(''type'', VStr ''RENT''), (''description'', VStr (replicate 4001 CHR ''x''))]
     = Inl (AssertionError DescriptionTooLong)
   \<and> validate [(''type'', VStr ''RENT''), (''description'', VStr (replicate 4001 CHR ''x''))]
     = Inl (AssertionError DescriptionTooLong)
   \<and> validate [(''type'', VStr ''RENT''), (''description'', VStr (replicate 4001 CHR ''x''))]
     \<noteq> Inl (AssertionError (MustBeOneOf ''type'' [''OFFER'', ''WANTED'']))"
  by (simp add: validate_def andthen_def check_description_length_def assert_one_of_def
        getitem_def ensure_def)

theorem validate_order_witness:
  "validate [(''type'', VStr ''RENT''), (''description'', VStr [])]
     = Inl (AssertionError (MustBeOneOf ''type'' [''OFFER'', ''WANTED'']))
   \<and> validate [(''type'', VStr ''RENT''), (''description'', VStr (replicate 4001 CHR ''x''))]
     = Inl (AssertionError DescriptionTooLong)"
proof -
  define ad1 where "ad1 = [(''type'', VStr ''RENT''), (''description'', VStr [])]"
  define ad2 where "ad2 = [(''type'', VStr ''RENT''), (''description'', VStr (replicate 4001 CHR ''x''))]"
  have r0: "validation_rules ad1 ! 0 = Inr ()"
    by (simp add: validation_rules_def ad1_def check_description_length_def getitem_def ensure_def)
  have r1: "validation_rules ad1 ! 1 = Inl (AssertionError (MustBeOneOf ''type'' [''OFFER'', ''WANTED'']))"
    by (simp add: validation_rules_def ad1_def assert_one_of_def ensure_def)
  have len: "(1::nat) < length (validation_rules ad1)"
    by (simp add: validation_rules_def)
  have "\<forall>j<(1::nat). validation_rules ad1 ! j = Inr ()"
    using r0 by simp
  with validate_order [of ad1] len r1
  have v1: "validate ad1 = Inl (AssertionError (MustBeOneOf ''type'' [''OFFER'', ''WANTED'']))"
    by blast
  have "check_description_length ad2 = Inl (AssertionError DescriptionTooLong)"
    by (simp add: ad2_def check_description_length_def getitem_def ensure_def)
  with validate_order [of ad2]
  have v2: "validate ad2 = Inl (AssertionError DescriptionTooLong)"
    by blast
  from v1 v2 show ?thesis
    unfolding ad1_def ad2_def by blast
qed

lemma validate_fails_if_price_fails:
  "check_price ad_cfg = Inl e \<Longrightarrow> \<exists>e'. validate ad_cfg = Inl e'"
  by (auto simp: validate_def andthen_def split: sum.splits)

lemma validate_others_pass:
  assumes "check_description_length ad_cfg = Inr ()"
      and "assert_one_of ad_cfg ''type'' [''OFFER'', ''WANTED''] = Inr ()"
      and "assert_min_len ad_cfg ''title'' 10 = Inr ()"
      and "assert_has_value ad_cfg ''description'' = Inr ()"
      and "assert_one_of ad_cfg ''price_type'' [''FIXED'', ''NEGOTIABLE'', ''GIVE_AWAY'', ''NOT_APPLICABLE''] = Inr ()"
      and "assert_one_of ad_cfg ''shipping_type'' [''PICKUP'', ''SHIPPING'', ''NOT_APPLICABLE''] = Inr ()"
      and "assert_has_value ad_cfg ''contact.name'' = Inr ()"
      and "assert_has_value ad_cfg ''republication_interval'' = Inr ()"
  shows "validate ad_cfg = check_price ad_cfg"
  using assms by (simp add: validate_def andthen_def split: sum.splits)

text \<open>
  C7. For an ad with \<open>price_type = GIVE_AWAY\<close> the price rule fails if and only if
  \<open>price\<close> is non-empty (truthy): then validation fails, and when the other checks pass,
  validation fails exactly when \<open>price\<close> is non-empty. For an ad with
  \<open>price_type = FIXED\<close> and an absent or empty \<open>price\<close> the price rule fails, and so does
  validation.
\<close>

theorem price_rule:
  "(getitem ad_cfg ''price_type'' = Inr (VStr ''GIVE_AWAY'') \<longrightarrow>
      (check_price ad_cfg = Inl (AssertionError PriceForGiveAway)
         \<longleftrightarrow> truthy (safe_get (VDict ad_cfg) [''price''])) \<and>
      (check_price ad_cfg = Inr () \<longleftrightarrow> \<not> truthy (safe_get (VDict ad_cfg) [''price''])) \<and>
      (truthy (safe_get (VDict ad_cfg) [''price'']) \<longrightarrow> (\<exists>e. validate ad_cfg = Inl e)) \<and>
      (check_description_length ad_cfg = Inr () \<and>
       assert_one_of ad_cfg ''type'' [''OFFER'', ''WANTED''] = Inr () \<and>
       assert_min_len ad_cfg ''title'' 10 = Inr () \<and>
       assert_has_value ad_cfg ''description'' = Inr () \<and>
       assert_one_of ad_cfg ''price_type'' [''FIXED'', ''NEGOTIABLE'', ''GIVE_AWAY'', ''NOT_APPLICABLE''] = Inr () \<and>
       assert_one_of ad_cfg ''shipping_type'' [''PICKUP'', ''SHIPPING'', ''NOT_APPLICABLE''] = Inr () \<and>
       assert_has_value ad_cfg ''contact.name'' = Inr () \<and>
       assert_has_value ad_cfg ''republication_interval'' = Inr () \<longrightarrow>
         ((\<exists>e. validate ad_cfg = Inl e) \<longleftrightarrow> truthy (safe_get (VDict ad_cfg) [''price'']))))
   \<and> (getitem ad_cfg ''price_type'' = Inr (VStr ''FIXED'') \<and>
       \<not> truthy (safe_get (VDict ad_cfg) [''price'']) \<longrightarrow>
         check_price ad_cfg = Inl (AssertionError (NotSpecified ''price'')) \<and>
         (\<exists>e. validate ad_cfg = Inl e))"
proof -
  let ?p = "truthy (safe_get (VDict ad_cfg) [''price''])"
  have ga: "check_price ad_cfg = (if ?p then Inl (AssertionError PriceForGiveAway) else Inr ())"
    if "getitem ad_cfg ''price_type'' = Inr (VStr ''GIVE_AWAY'')"
    using that by (simp add: check_price_def ensure_def)
  have fx: "check_price ad_cfg = Inl (AssertionError (NotSpecified ''price''))"
    if "getitem ad_cfg ''price_type'' = Inr (VStr ''FIXED'')" "\<not> ?p"
    using that by (simp add: check_price_def assert_has_value_def ensure_def)
  show ?thesis
  proof (intro conjI impI)
    assume g: "getitem ad_cfg ''price_type'' = Inr (VStr ''GIVE_AWAY'')"
    show "(check_price ad_cfg = Inl (AssertionError PriceForGiveAway)) = ?p"
      using ga [OF g] by simp
    show "(check_price ad_cfg = Inr ()) = (\<not> ?p)"
      using ga [OF g] by simp
    show "\<exists>e. validate ad_cfg = Inl e" if ?p
      using ga [OF g] that validate_fails_if_price_fails [of ad_cfg] by simp
  next
    assume g: "getitem ad_cfg ''price_type'' = Inr (VStr ''GIVE_AWAY'')"
    assume rest: "check_description_length ad_cfg = Inr () \<and>
       assert_one_of ad_cfg ''type'' [''OFFER'', ''WANTED''] = Inr () \<and>
       assert_min_len ad_cfg ''title'' 10 = Inr () \<and>
       assert_has_value ad_cfg ''description'' = Inr () \<and>
       assert_one_of ad_cfg ''price_type'' [''FIXED'', ''NEGOTIABLE'', ''GIVE_AWAY'', ''NOT_APPLICABLE''] = Inr () \<and>
       assert_one_of ad_cfg ''shipping_type'' [''PICKUP'', ''SHIPPING'', ''NOT_APPLICABLE''] = Inr () \<and>
       assert_has_value ad_cfg ''contact.name'' = Inr () \<and>
       assert_has_value ad_cfg ''republication_interval'' = Inr ()"
    then have "validate ad_cfg = check_price ad_cfg"
      using validate_others_pass [of ad_cfg] by blast
    then show "(\<exists>e. validate ad_cfg = Inl e) = ?p"
      using ga [OF g] by simp
  next
    assume f: "getitem ad_cfg ''price_type'' = Inr (VStr ''FIXED'') \<and> \<not> ?p"
    then show "check_price ad_cfg = Inl (AssertionError (NotSpecified ''price''))"
      using fx by blast
    then show "\<exists>e. validate ad_cfg = Inl e"
      using validate_fails_if_price_fails [of ad_cfg] by blast
  qed
qed


theorem price_rule_witness:
  "(\<exists>e. validate
       [(''type'', VStr ''OFFER''), (''title'', VStr ''A good bicycle''), (''description'', VStr ''Rides well''),
        (''price_type'', VStr ''GIVE_AWAY''), (''price'', VInt 5), (''shipping_type'', VStr ''PICKUP''),
        (''contact'', VDict [(''name'', VStr ''Bob'')]), (''republication_interval'', VInt 7)] = Inl e)
   \<and> \<not> (\<exists>e. validate
       [(''type'', VStr ''OFFER''), (''title'', VStr ''A good bicycle''), (''description'', VStr ''Rides well''),
        (''price_type'', VStr ''GIVE_AWAY''), (''price'', VNone), (''shipping_type'', VStr ''PICKUP''),
        (''contact'', VDict [(''name'', VStr ''Bob'')]), (''republication_interval'', VInt 7)] = Inl e)
   \<and> check_price
       [(''type'', VStr ''OFFER''), (''title'', VStr ''A good bicycle''), (''description'', VStr ''Rides well''),
        (''price_type'', VStr ''FIXED''), (''price'', VStr []), (''shipping_type'', VStr ''PICKUP''),
        (''contact'', VDict [(''name'', VStr ''Bob'')]), (''republication_interval'', VInt 7)]
       = Inl (AssertionError (NotSpecified ''price''))"
proof -
  define mk where "mk = (\<lambda>pt p.
       [(''type'', VStr ''OFFER''), (''title'', VStr ''A good bicycle''), (''description'', VStr ''Rides well''),
        (''price_type'', VStr pt), (''price'', p), (''shipping_type'', VStr ''PICKUP''),
        (''contact'', VDict [(''name'', VStr ''Bob'')]), (''republication_interval'', VInt 7)])"
  have pt: "getitem (mk pt p) ''price_type'' = Inr (VStr pt)" for pt p
    by (simp add: mk_def getitem_def)
  have pr: "safe_get (VDict (mk pt p)) [''price''] = p" for pt p
    by (simp add: mk_def)
  have others: "check_description_length (mk pt p) = Inr () \<and>
       assert_one_of (mk pt p) ''type'' [''OFFER'', ''WANTED''] = Inr () \<and>
       assert_min_len (mk pt p) ''title'' 10 = Inr () \<and>
       assert_has_value (mk pt p) ''description'' = Inr () \<and>
       assert_one_of (mk ''GIVE_AWAY'' p) ''price_type'' [''FIXED'', ''NEGOTIABLE'', ''GIVE_AWAY'', ''NOT_APPLICABLE''] = Inr () \<and>
       assert_one_of (mk pt p) ''shipping_type'' [''PICKUP'', ''SHIPPING'', ''NOT_APPLICABLE''] = Inr () \<and>
       assert_has_value (mk pt p) ''contact.name'' = Inr () \<and>
       assert_has_value (mk pt p) ''republication_interval'' = Inr ()" for pt p
    by (simp add: mk_def check_description_length_def assert_one_of_def assert_min_len_def
          assert_has_value_def getitem_def ensure_def)
  have a: "\<exists>e. validate (mk ''GIVE_AWAY'' (VInt 5)) = Inl e"
    using price_rule [of "mk ''GIVE_AWAY'' (VInt 5)"] pt [of "''GIVE_AWAY''" "VInt 5"]
      pr [of "''GIVE_AWAY''" "VInt 5"] by simp
  have b: "\<not> (\<exists>e. validate (mk ''GIVE_AWAY'' VNone) = Inl e)"
    using price_rule [of "mk ''GIVE_AWAY'' VNone"] pt [of "''GIVE_AWAY''" VNone]
      pr [of "''GIVE_AWAY''" VNone] others [of "''GIVE_AWAY''" VNone] by simp
  have c: "check_price (mk ''FIXED'' (VStr [])) = Inl (AssertionError (NotSpecified ''price''))"
    using price_rule [of "mk ''FIXED'' (VStr [])"] pt [of "''FIXED''" "VStr []"]
      pr [of "''FIXED''" "VStr []"] by simp
  from a b c show ?thesis
    unfolding mk_def by blast
qed

section \<open>Deleting\<close>

lemma delete_ad_clears_id:
  "delete_ad by_title published ad_cfg = Inr ad_cfg' \<Longrightarrow>
     ad_cfg' = setitem ad_cfg ''id'' VNone \<and> getitem ad_cfg' ''id'' = Inr VNone"
  by (auto simp: delete_ad_def getitem_setitem_same split: sum.splits if_splits)

text \<open>
  C4 (amended). After a successful delete action the \<open>id\<close> of the resolved definition of
  each ad is cleared (set to \<open>None\<close>); the raw definitions, their \<open>id\<close> included, and the
  files are as they were before.
\<close>

theorem delete_ads_effect:
  "delete_ads by_title published ads = Inr ads' \<Longrightarrow>
     map fst ads' = map fst ads
   \<and> map (\<lambda>t. snd (snd t)) ads' = map (\<lambda>t. snd (snd t)) ads
   \<and> map (\<lambda>t. fst (snd t)) ads' = map (\<lambda>t. setitem (fst (snd t)) ''id'' VNone) ads
   \<and> (\<forall>t \<in> set ads'. getitem (fst (snd t)) ''id'' = Inr VNone)"
proof (induction ads arbitrary: ads')
  case Nil
  then show ?case by simp
next
  case (Cons a ads)
  obtain ad_file ad_cfg ad_cfg_orig where a: "a = (ad_file, ad_cfg, ad_cfg_orig)"
    by (cases a) auto
  from Cons.prems a obtain cfg' rest' where
      d: "delete_ad by_title published ad_cfg = Inr cfg'"
    and r: "delete_ads by_title published ads = Inr rest'"
    and e: "ads' = (ad_file, cfg', ad_cfg_orig) # rest'"
    by (auto split: sum.splits)
  from delete_ad_clears_id [OF d] Cons.IH [OF r] a e show ?case
    by (simp add: getitem_setitem_same)
qed

text \<open>
  The raw definition keeps its \<open>id\<close>: after the deletion of an ad whose raw and resolved
  definitions carry the id 5, the raw definition still does.
\<close>

theorem delete_ads_effect_counterexample:
  "delete_ads False []
     [(''ads/bike.yaml'',
       [(''title'', VStr ''A good bicycle''), (''id'', VInt 5), (''active'', VBool True)],
       [(''title'', VStr ''A good bicycle''), (''id'', VInt 5)])]
   = Inr [(''ads/bike.yaml'',
       [(''title'', VStr ''A good bicycle''), (''id'', VNone), (''active'', VBool True)],
       [(''title'', VStr ''A good bicycle''), (''id'', VInt 5)])]
   \<and> getitem [(''title'', VStr ''A good bicycle''), (''id'', VInt 5)] ''id'' = Inr (VInt 5)"
  by (simp add: delete_ad_def getitem_def setitem_def)

theorem delete_ads_effect_witness:
  "getitem [(''title'', VStr ''A good bicycle''), (''id'', VNone), (''active'', VBool True)] ''id'' = Inr VNone
   \<and> map (\<lambda>t. snd (snd t)) [(''ads/bike.yaml'',
       [(''title'', VStr ''A good bicycle''), (''id'', VNone), (''active'', VBool True)],
       [(''title'', VStr ''A good bicycle''), (''id'', VInt 5)])]
     = [[(''title'', VStr ''A good bicycle''), (''id'', VInt 5)]]"
proof -
  have run: "delete_ads False []
     [(''ads/bike.yaml'',
       [(''title'', VStr ''A good bicycle''), (''id'', VInt 5), (''active'', VBool True)],
       [(''title'', VStr ''A good bicycle''), (''id'', VInt 5)])]
   = Inr [(''ads/bike.yaml'',
       [(''title'', VStr ''A good bicycle''), (''id'', VNone), (''active'', VBool True)],
       [(''title'', VStr ''A good bicycle''), (''id'', VInt 5)])]"
    by (simp add: delete_ad_def getitem_def setitem_def)
  from delete_ads_effect [OF run] show ?thesis
    by (simp add: getitem_setitem_same)
qed

section \<open>Publishing\<close>

lemma filter_setitem_frame:
  "k \<in> K \<Longrightarrow> filter (\<lambda>kv. fst kv \<notin> K) (setitem d k v) = filter (\<lambda>kv. fst kv \<notin> K) d"
  unfolding setitem_def by (induction d) auto

lemma publish_ad_result:
  assumes "publish_ad self web ad_file ad_cfg ad_cfg_orig = Inr (cfg, orig', saved)"
  shows "\<exists>ad_id first. confirmed_ad_id web = Inr ad_id \<and> saved = (ad_file, orig') \<and>
           orig' = setitem (if first
                            then setitem (setitem ad_cfg_orig ''updated_on'' (VStr (utcnow_iso web)))
                                   ''created_on'' (VStr (utcnow_iso web))
                            else setitem ad_cfg_orig ''updated_on'' (VStr (utcnow_iso web)))
                     ''id'' (VInt ad_id)"
  using assms
  by (auto simp: publish_ad_def Let_def split: sum.splits if_splits)

lemma publish_ad_raw_frame:
  assumes "publish_ad self web ad_file ad_cfg ad_cfg_orig = Inr (cfg, orig', saved)"
  shows "saved = (ad_file, orig')"
    and "getitem orig' ''updated_on'' = Inr (VStr (utcnow_iso web))"
    and "\<exists>ad_id. confirmed_ad_id web = Inr ad_id \<and> getitem orig' ''id'' = Inr (VInt ad_id)"
    and "filter (\<lambda>kv. fst kv \<notin> {''updated_on'', ''created_on'', ''id''}) orig'
           = filter (\<lambda>kv. fst kv \<notin> {''updated_on'', ''created_on'', ''id''}) ad_cfg_orig"
proof -
  let ?K = "{''updated_on'', ''created_on'', ''id''}"
  let ?now = "VStr (utcnow_iso web)"
  from publish_ad_result [OF assms] obtain ad_id first where
      id: "confirmed_ad_id web = Inr ad_id" and sv: "saved = (ad_file, orig')"
    and o: "orig' = setitem (if first
                            then setitem (setitem ad_cfg_orig ''updated_on'' ?now) ''created_on'' ?now
                            else setitem ad_cfg_orig ''updated_on'' ?now)
                     ''id'' (VInt ad_id)"
    by blast
  show "saved = (ad_file, orig')" by (rule sv)
  show "getitem orig' ''updated_on'' = Inr ?now"
    by (simp add: o getitem_setitem_same getitem_setitem_other)
  show "\<exists>ad_id. confirmed_ad_id web = Inr ad_id \<and> getitem orig' ''id'' = Inr (VInt ad_id)"
    using id by (simp add: o getitem_setitem_same)
  have k: "''updated_on'' \<in> ?K" "''created_on'' \<in> ?K" "''id'' \<in> ?K" by simp_all
  show "filter (\<lambda>kv. fst kv \<notin> ?K) orig' = filter (\<lambda>kv. fst kv \<notin> ?K) ad_cfg_orig"
    by (cases first) (simp_all only: o if_True if_False filter_setitem_frame [OF k(1)]
          filter_setitem_frame [OF k(2)] filter_setitem_frame [OF k(3)])
qed

lemma publish_ad_created_on_when_deleting:
  assumes "delete_old_ads self"
      and "publish_ad self web ad_file ad_cfg ad_cfg_orig = Inr (cfg, orig', saved)"
      and "getitem ad_cfg ''created_on'' = Inr c" and "\<not> truthy c"
  shows "getitem orig' ''created_on'' = Inr (VStr (utcnow_iso web))"
  using assms
  by (auto simp: publish_ad_def delete_ad_def Let_def getitem_setitem_same getitem_setitem_other
      split: sum.splits if_splits)


section \<open>Discovery of the ad files\<close>

lemma endswith_suffix: "endswith s sfx \<longleftrightarrow> suffix sfx s"
proof
  assume "endswith s sfx"
  then have "s = take (length s - length sfx) s @ sfx"
    by (metis append_take_drop_id endswith_def)
  then show "suffix sfx s"
    unfolding suffix_def by blast
next
  assume "suffix sfx s"
  then obtain zs where "s = zs @ sfx"
    unfolding suffix_def by blast
  then show "endswith s sfx"
    by (simp add: endswith_def)
qed

lemma endswith_join:
  assumes "CHR ''/'' \<notin> set sfx" and "endswith (root @ ''/'' @ f) sfx"
  shows "endswith f sfx"
proof -
  from assms(2) have "suffix sfx (root @ CHR ''/'' # f)"
    by (simp add: endswith_suffix)
  then consider "suffix sfx (CHR ''/'' # f)" | xs where "sfx = xs @ CHR ''/'' # f"
    by (auto simp: suffix_append)
  then show ?thesis
  proof cases
    case 1
    then have "suffix sfx f \<or> sfx = CHR ''/'' # f"
      by (auto simp: suffix_Cons)
    with assms(1) show ?thesis
      by (auto simp: endswith_suffix)
  next
    case 2
    with assms(1) show ?thesis by simp
  qed
qed

lemma set_add_ad_files:
  "set (add_ad_files to_abs fs acc)
     = set acc \<union> {to_abs f | f. f \<in> set fs \<and> \<not> endswith f ''ad_fields.yaml''}"
  by (induction fs arbitrary: acc) auto

lemma set_discover_loop:
  "set (discover_loop glob to_abs pats acc)
     = set acc \<union> {to_abs f | f p. p \<in> set pats \<and> f \<in> set (glob p) \<and> \<not> endswith f ''ad_fields.yaml''}"
  by (induction pats arbitrary: acc) (auto simp: set_add_ad_files)

lemma load_loop_files:
  "load_loop self w ignore_inactive check_id files = Inr ads \<Longrightarrow> t \<in> set ads \<Longrightarrow> fst t \<in> set files"
proof (induction files arbitrary: ads)
  case Nil
  then show ?case by simp
next
  case (Cons f files)
  from Cons.prems(1) obtain rest where
      rest: "load_loop self w ignore_inactive check_id files = Inr rest"
    and ads: "ads = rest \<or> (\<exists>c raw. ads = (f, c, raw) # rest)"
    by (auto split: sum.splits option.splits)
  from ads Cons.prems(2) have "t \<in> set rest \<or> fst t = f" by auto
  with Cons.IH [OF rest] show ?case by auto
qed

text \<open>
  C10. The discovered ad files are the absolute paths of the matches of the configured
  patterns that do not end in \<open>ad_fields.yaml\<close>: a match with that suffix adds nothing.
  With an \<open>abspath\<close> that gives no path the suffix that its argument lacks (as joining the
  root directory and the relative path does), no discovered file ends in
  \<open>ad_fields.yaml\<close>. Every file of a triple that \<open>load_ads\<close> returns is a discovered file.
\<close>

theorem discover_excludes_ad_fields:
  "set (discover self w)
     = {abspath w f (data_root_dir self) | f p.
          p \<in> set (ad_files_patterns self) \<and> f \<in> set (glob_in w (data_root_dir self) p) \<and>
          \<not> endswith f ''ad_fields.yaml''}
   \<and> ((\<forall>f. endswith (abspath w f (data_root_dir self)) ''ad_fields.yaml''
             \<longrightarrow> endswith f ''ad_fields.yaml'') \<longrightarrow>
        (\<forall>x \<in> set (discover self w). \<not> endswith x ''ad_fields.yaml''))
   \<and> (\<forall>ads. load_ads self w ignore_inactive check_id = Inr ads \<longrightarrow>
        (\<forall>t \<in> set ads. fst t \<in> set (discover self w)))"
proof (intro conjI)
  show d: "set (discover self w)
     = {abspath w f (data_root_dir self) | f p.
          p \<in> set (ad_files_patterns self) \<and> f \<in> set (glob_in w (data_root_dir self) p) \<and>
          \<not> endswith f ''ad_fields.yaml''}"
    by (simp add: discover_def set_discover_loop)
  show "(\<forall>f. endswith (abspath w f (data_root_dir self)) ''ad_fields.yaml''
             \<longrightarrow> endswith f ''ad_fields.yaml'') \<longrightarrow>
        (\<forall>x \<in> set (discover self w). \<not> endswith x ''ad_fields.yaml'')"
    unfolding d by blast
  show "\<forall>ads. load_ads self w ignore_inactive check_id = Inr ads \<longrightarrow>
        (\<forall>t \<in> set ads. fst t \<in> set (discover self w))"
  proof (intro allI impI ballI)
    fix ads t
    assume l: "load_ads self w ignore_inactive check_id = Inr ads" and t: "t \<in> set ads"
    show "fst t \<in> set (discover self w)"
    proof (cases "discover self w = []")
      case True
      with l t show ?thesis by (simp add: load_ads_def)
    next
      case False
      with l have "load_loop self w ignore_inactive check_id (sort (discover self w)) = Inr ads"
        by (simp add: load_ads_def)
      from load_loop_files [OF this t] show ?thesis by simp
    qed
  qed
qed

theorem discover_excludes_ad_fields_witness:
  "discover
     \<lparr>ads_selector = ''due'', categories = [], ad_files_patterns = [''**/*.yaml''],
      data_root_dir = ''/data'', descr_prefix = [], descr_suffix = [],
      delete_old_ads = True, delete_ads_by_title = False\<rparr>
     \<lparr>utcnow = 0, parse_datetime = (\<lambda>v. Inr 0), int_of_str = (\<lambda>s. None),
      format_costs = (\<lambda>v. Inl ValueError),
      glob_in = (\<lambda>root p. if p = ''**/*.yaml''
                  then [''bike.yaml'', ''ad_fields.yaml'', ''res/ad_fields.yaml'', ''bike.yaml''] else []),
      isabs = (\<lambda>p. False), abspath = (\<lambda>f rel. rel @ ''/'' @ f),
      load_dict = (\<lambda>f. Inl (KeyError f)), merge_defaults = (\<lambda>d. d)\<rparr>
   = [''/data/bike.yaml'']
   \<and> \<not> endswith ''/data/bike.yaml'' ''ad_fields.yaml''"
proof -
  define S where "S = \<lparr>ads_selector = ''due'', categories = [], ad_files_patterns = [''**/*.yaml''],
      data_root_dir = ''/data'', descr_prefix = [], descr_suffix = [],
      delete_old_ads = True, delete_ads_by_title = False\<rparr>"
  define W where "W = \<lparr>utcnow = 0, parse_datetime = (\<lambda>v. Inr 0), int_of_str = (\<lambda>s. None),
      format_costs = (\<lambda>v. Inl ValueError),
      glob_in = (\<lambda>root p. if p = ''**/*.yaml''
                  then [''bike.yaml'', ''ad_fields.yaml'', ''res/ad_fields.yaml'', ''bike.yaml''] else []),
      isabs = (\<lambda>p. False), abspath = (\<lambda>f rel. rel @ ''/'' @ f),
      load_dict = (\<lambda>f. Inl (KeyError f)), merge_defaults = (\<lambda>d. d)\<rparr>"
  have run: "discover S W = [''/data/bike.yaml'']"
    by (simp add: discover_def S_def W_def endswith_def)
  have "\<forall>f. endswith (abspath W f (data_root_dir S)) ''ad_fields.yaml'' \<longrightarrow> endswith f ''ad_fields.yaml''"
    using endswith_join [of "''ad_fields.yaml''" "''/data''"] by (simp add: S_def W_def)
  with discover_excludes_ad_fields [of S W]
  have "\<forall>x \<in> set (discover S W). \<not> endswith x ''ad_fields.yaml''"
    by blast
  then have "\<not> endswith ''/data/bike.yaml'' ''ad_fields.yaml''"
    by (simp add: run)
  with run show ?thesis
    unfolding S_def W_def by blast
qed

section \<open>Category resolution\<close>

lemma map_of_dict_update:
  "map_of (dict_update d other) k
     = (case map_of (rev other) k of None \<Rightarrow> map_of d k | Some v \<Rightarrow> Some v)"
  unfolding dict_update_def
proof (induction other arbitrary: d)
  case Nil
  then show ?case by simp
next
  case (Cons kv other)
  obtain k' v' where kv: "kv = (k', v')" by (cases kv)
  show ?case
    by (simp add: kv Cons.IH update_conv' map_add_def split: option.splits)
qed

lemma map_of_rev_distinct: "distinct (map fst xs) \<Longrightarrow> map_of (rev xs) = map_of xs"
proof (induction xs)
  case Nil
  then show ?case by simp
next
  case (Cons p xs)
  obtain a b where p: "p = (a, b)" by (cases p)
  from Cons.prems p have none: "map_of (rev xs) a = None"
    by (simp add: map_of_eq_None_iff)
  from Cons have ih: "map_of (rev xs) = map_of xs" by simp
  show ?case
  proof (rule ext)
    fix k
    show "map_of (rev (p # xs)) k = map_of (p # xs) k"
      using none by (cases "k = a") (simp_all add: p map_add_def ih [symmetric] split: option.splits)
  qed
qed

text \<open>
  C8 (amended). For the category value of an ad: a non-empty string that is a key of the
  category table is replaced by the mapped code, and a non-empty string that is not a key
  is kept; a falsy value (\<open>None\<close>, the empty string) and any other scalar is kept without
  a lookup; a non-empty list or dictionary raises \<open>TypeError\<close>, since it cannot be hashed.
  The table is the bundled one overlaid with the user's entries, which win on a key that
  both have.
\<close>

theorem category_resolution:
  assumes cat: "getitem ad_cfg ''category'' = Inr c"
  shows "(\<forall>s. c = VStr s \<and> s \<noteq> [] \<longrightarrow>
            resolve_category table ad_cfg
              = Inr (setitem ad_cfg ''category''
                      (case map_of table s of None \<Rightarrow> VStr s | Some code \<Rightarrow> VStr code)))
       \<and> (\<not> truthy c \<or> (\<exists>b. c = VBool b) \<or> (\<exists>n. c = VInt n) \<or> (\<exists>t. c = VDatetime t) \<longrightarrow>
            resolve_category table ad_cfg = Inr ad_cfg)
       \<and> (truthy c \<and> ((\<exists>xs. c = VList xs) \<or> (\<exists>d. c = VDict d)) \<longrightarrow>
            resolve_category table ad_cfg = Inl TypeError)
       \<and> (\<forall>bundled user s. distinct (map fst user) \<and> table = load_categories bundled (Some user) \<longrightarrow>
            map_of table s = (case map_of user s of None \<Rightarrow> map_of bundled s | Some code \<Rightarrow> Some code))"
proof (intro conjI allI impI)
  fix s
  assume "c = VStr s \<and> s \<noteq> []"
  then show "resolve_category table ad_cfg
              = Inr (setitem ad_cfg ''category''
                      (case map_of table s of None \<Rightarrow> VStr s | Some code \<Rightarrow> VStr code))"
    using cat by (simp add: resolve_category_def)
next
  from cat have m: "map_of ad_cfg ''category'' = Some c"
    by (simp add: getitem_def split: option.splits)
  assume "\<not> truthy c \<or> (\<exists>b. c = VBool b) \<or> (\<exists>n. c = VInt n) \<or> (\<exists>t. c = VDatetime t)"
  then show "resolve_category table ad_cfg = Inr ad_cfg"
    using cat setitem_same_value [OF m] by (auto simp: resolve_category_def)
next
  assume "truthy c \<and> ((\<exists>xs. c = VList xs) \<or> (\<exists>d. c = VDict d))"
  then show "resolve_category table ad_cfg = Inl TypeError"
    using cat by (auto simp: resolve_category_def)
next
  fix bundled user s
  assume h: "distinct (map fst user) \<and> table = load_categories bundled (Some user)"
  then have "map_of (rev user) = map_of user"
    by (simp add: map_of_rev_distinct)
  with h show "map_of table s = (case map_of user s of None \<Rightarrow> map_of bundled s | Some code \<Rightarrow> Some code)"
    by (cases "user = []") (simp_all add: load_categories_def map_of_dict_update)
qed

text \<open>
  Two inputs at which the resolver does not return the mapped code or the value: a list
  raises, and the empty string is kept although the table maps it.
\<close>

theorem category_resolution_counterexample:
  "resolve_category [(''bikes'', ''217'')] [(''category'', VList [VStr ''bikes''])] = Inl TypeError
   \<and> map_of [([], ''217'')] [] = Some ''217''
   \<and> resolve_category [([], ''217'')] [(''category'', VStr [])] = Inr [(''category'', VStr [])]"
  by (simp add: resolve_category_def getitem_def)

theorem category_resolution_witness:
  "resolve_category (load_categories [(''bikes'', ''217''), (''cars'', ''216'')] (Some [(''bikes'', ''999'')]))
      [(''title'', VStr ''A good bicycle''), (''category'', VStr ''bikes'')]
     = Inr [(''title'', VStr ''A good bicycle''), (''category'', VStr ''999'')]
   \<and> resolve_category (load_categories [(''bikes'', ''217''), (''cars'', ''216'')] (Some [(''bikes'', ''999'')]))
      [(''title'', VStr ''A good bicycle''), (''category'', VStr ''161/176'')]
     = Inr [(''title'', VStr ''A good bicycle''), (''category'', VStr ''161/176'')]
   \<and> resolve_category (load_categories [(''bikes'', ''217''), (''cars'', ''216'')] (Some [(''bikes'', ''999'')]))
      [(''title'', VStr ''A good bicycle''), (''category'', VNone)]
     = Inr [(''title'', VStr ''A good bicycle''), (''category'', VNone)]"
proof -
  define table where "table = load_categories [(''bikes'', ''217''), (''cars'', ''216'')] (Some [(''bikes'', ''999'')])"
  define ad where "ad = (\<lambda>c. [(''title'', VStr ''A good bicycle''), (''category'', c)])"
  have g: "getitem (ad c) ''category'' = Inr c" for c
    by (simp add: ad_def getitem_def)
  have d: "distinct (map fst [(''bikes'', ''999'')])" by simp
  have t: "map_of table s = (case map_of [(''bikes'', ''999'')] s of
                               None \<Rightarrow> map_of [(''bikes'', ''217''), (''cars'', ''216'')] s
                             | Some code \<Rightarrow> Some code)" for s
    using category_resolution [OF g [of VNone], of table] d table_def by blast
  have "resolve_category table (ad (VStr ''bikes'')) = Inr (setitem (ad (VStr ''bikes'')) ''category'' (VStr ''999''))"
    using category_resolution [OF g [of "VStr ''bikes''"], of table] t [of "''bikes''"] by simp
  then have a: "resolve_category table (ad (VStr ''bikes'')) = Inr (ad (VStr ''999''))"
    by (simp add: ad_def setitem_def)
  have "resolve_category table (ad (VStr ''161/176''))
          = Inr (setitem (ad (VStr ''161/176'')) ''category'' (VStr ''161/176''))"
    using category_resolution [OF g [of "VStr ''161/176''"], of table] t [of "''161/176''"] by simp
  then have b: "resolve_category table (ad (VStr ''161/176'')) = Inr (ad (VStr ''161/176''))"
    by (simp add: ad_def setitem_def)
  have c: "resolve_category table (ad VNone) = Inr (ad VNone)"
    using category_resolution [OF g [of VNone], of table] by simp
  from a b c show ?thesis
    unfolding table_def ad_def by blast
qed

section \<open>Normalisation of the id\<close>

lemma compose_description_other:
  "compose_description p s ad_cfg = Inr c1 \<Longrightarrow> k \<noteq> ''description'' \<Longrightarrow> getitem c1 k = getitem ad_cfg k"
  by (auto simp: compose_description_def getitem_setitem_other split: sum.splits pyval.splits if_splits)

lemma resolve_category_other:
  "resolve_category table c2 = Inr c3 \<Longrightarrow> k \<noteq> ''category'' \<Longrightarrow> getitem c3 k = getitem c2 k"
  by (auto simp: resolve_category_def getitem_setitem_other split: sum.splits if_splits)

lemma normalize_shipping_costs_other:
  "normalize_shipping_costs f c3 = Inr c4 \<Longrightarrow> k \<noteq> ''shipping_costs'' \<Longrightarrow> getitem c4 k = getitem c3 k"
  by (auto simp: normalize_shipping_costs_def getitem_setitem_other split: sum.splits if_splits)

lemma resolve_images_other:
  "resolve_images glob is_abs to_abs c4 = Inr c5 \<Longrightarrow> k \<noteq> ''images'' \<Longrightarrow> getitem c5 k = getitem c4 k"
  by (auto simp: resolve_images_def getitem_setitem_other split: sum.splits if_splits)

lemma normalize_id_result:
  "normalize_id f c1 = Inr c2 \<Longrightarrow>
     \<exists>i. getitem c1 ''id'' = Inr i \<and>
         (if truthy i then \<exists>n. py_int f i = Inr n \<and> getitem c2 ''id'' = Inr (VInt n)
          else getitem c2 ''id'' = Inr i)"
  by (auto simp: normalize_id_def getitem_setitem_same split: sum.splits if_splits)

lemma load_ad_id:
  assumes "load_ad self w ignore_inactive check_id ad_file ad_cfg = Inr (Some resolved)"
  shows "\<exists>i. getitem ad_cfg ''id'' = Inr i \<and>
           (if truthy i then \<exists>n. py_int (int_of_str w) i = Inr n \<and> getitem resolved ''id'' = Inr (VInt n)
            else getitem resolved ''id'' = Inr i)"
proof -
  from assms obtain c1 c2 c3 c4 where
      s1: "compose_description (descr_prefix self) (descr_suffix self) ad_cfg = Inr c1"
    and s2: "normalize_id (int_of_str w) c1 = Inr c2"
    and s3: "resolve_category (categories self) c2 = Inr c3"
    and s4: "normalize_shipping_costs (format_costs w) c3 = Inr c4"
    and s5: "resolve_images (glob_in w ad_file) (isabs w) (\<lambda>f. abspath w f ad_file) c4 = Inr resolved"
    by (auto simp: load_ad_def split: sum.splits bool.splits if_splits)
  have a: "getitem c1 ''id'' = getitem ad_cfg ''id''"
    using compose_description_other [OF s1] by simp
  have b: "getitem resolved ''id'' = getitem c2 ''id''"
    using resolve_category_other [OF s3, of "''id''"]
          normalize_shipping_costs_other [OF s4, of "''id''"]
          resolve_images_other [OF s5, of "''id''"] by simp
  from normalize_id_result [OF s2] show ?thesis
    by (simp only: a b)
qed

lemma load_loop_triples:
  "load_loop self w ignore_inactive check_id files = Inr ads \<Longrightarrow> (f, resolved, raw) \<in> set ads \<Longrightarrow>
     load_dict w f = Inr raw \<and>
     load_ad self w ignore_inactive check_id f (merge_defaults w raw) = Inr (Some resolved)"
proof (induction files arbitrary: ads)
  case Nil
  then show ?case by simp
next
  case (Cons fl files)
  from Cons.prems(1) obtain raw0 r rest where
      ld: "load_dict w fl = Inr raw0"
    and la: "load_ad self w ignore_inactive check_id fl (merge_defaults w raw0) = Inr r"
    and rest: "load_loop self w ignore_inactive check_id files = Inr rest"
    and ads: "ads = (case r of None \<Rightarrow> rest | Some c \<Rightarrow> (fl, c, raw0) # rest)"
    by (auto split: sum.splits)
  show ?case
  proof (cases "(f, resolved, raw) \<in> set rest")
    case True
    then show ?thesis by (rule Cons.IH [OF rest])
  next
    case False
    with Cons.prems(2) ads have "r = Some resolved \<and> f = fl \<and> raw = raw0"
      by (auto split: option.splits)
    with ld la show ?thesis by simp
  qed
qed

text \<open>
  C9. In every triple that \<open>load_ads\<close> returns, the \<open>id\<close> of the resolved definition is
  either the falsy \<open>id\<close> of the merged definition, unchanged, or the integer that \<open>int\<close>
  makes of it; a non-empty string \<open>id\<close> has become the integer it denotes.
\<close>

theorem loaded_id_is_integer:
  assumes "load_ads self w ignore_inactive check_id = Inr ads"
      and "(ad_file, resolved, raw) \<in> set ads"
  shows "\<exists>i. getitem (merge_defaults w raw) ''id'' = Inr i \<and>
           (if truthy i
            then \<exists>n. py_int (int_of_str w) i = Inr n \<and> getitem resolved ''id'' = Inr (VInt n)
            else getitem resolved ''id'' = Inr i) \<and>
           (\<forall>s. i = VStr s \<and> s \<noteq> [] \<longrightarrow>
              (\<exists>n. int_of_str w s = Some n \<and> getitem resolved ''id'' = Inr (VInt n)))"
proof -
  from assms have "load_loop self w ignore_inactive check_id (sort (discover self w)) = Inr ads"
    by (auto simp: load_ads_def Let_def split: if_splits)
  from load_loop_triples [OF this assms(2)]
  have "load_ad self w ignore_inactive check_id ad_file (merge_defaults w raw) = Inr (Some resolved)"
    by simp
  from load_ad_id [OF this] obtain i where
      i: "getitem (merge_defaults w raw) ''id'' = Inr i"
    and r: "if truthy i then \<exists>n. py_int (int_of_str w) i = Inr n \<and> getitem resolved ''id'' = Inr (VInt n)
            else getitem resolved ''id'' = Inr i"
    by blast
  have "\<exists>n. int_of_str w s = Some n \<and> getitem resolved ''id'' = Inr (VInt n)"
    if "i = VStr s \<and> s \<noteq> []" for s
    using r that by (auto split: option.splits)
  with i r show ?thesis by blast
qed


theorem loaded_id_is_integer_witness:
  "load_ads
     \<lparr>ads_selector = ''due'', categories = [(''bikes'', ''217'')], ad_files_patterns = [''*.yaml''],
      data_root_dir = ''/data'', descr_prefix = [], descr_suffix = [],
      delete_old_ads = True, delete_ads_by_title = False\<rparr>
     \<lparr>utcnow = 0, parse_datetime = (\<lambda>v. Inr 0),
      int_of_str = (\<lambda>s. if s = ''123'' then Some 123 else None),
      format_costs = (\<lambda>v. Inl ValueError),
      glob_in = (\<lambda>root p. if p = ''*.yaml'' then [''bike.yaml''] else []),
      isabs = (\<lambda>p. False), abspath = (\<lambda>f rel. ''/data/'' @ f),
      load_dict = (\<lambda>f. Inr
        [(''active'', VBool True), (''type'', VStr ''OFFER''), (''title'', VStr ''A good bicycle''),
         (''description'', VStr ''Rides well''), (''category'', VStr ''bikes''),
         (''price'', VInt 50), (''price_type'', VStr ''FIXED''), (''shipping_type'', VStr ''PICKUP''),
         (''shipping_costs'', VNone), (''images'', VList []),
         (''contact'', VDict [(''name'', VStr ''Bob'')]), (''republication_interval'', VInt 7),
         (''id'', VStr ''123''), (''created_on'', VNone), (''updated_on'', VNone)]),
      merge_defaults = (\<lambda>d. d)\<rparr>
     True True
   = Inr [(''/data/bike.yaml'',
        [(''active'', VBool True), (''type'', VStr ''OFFER''), (''title'', VStr ''A good bicycle''),
         (''description'', VStr ''Rides well''), (''category'', VStr ''217''),
         (''price'', VInt 50), (''price_type'', VStr ''FIXED''), (''shipping_type'', VStr ''PICKUP''),
         (''shipping_costs'', VNone), (''images'', VList []),
         (''contact'', VDict [(''name'', VStr ''Bob'')]), (''republication_interval'', VInt 7),
         (''id'', VInt 123), (''created_on'', VNone), (''updated_on'', VNone)],
        [(''active'', VBool True), (''type'', VStr ''OFFER''), (''title'', VStr ''A good bicycle''),
         (''description'', VStr ''Rides well''), (''category'', VStr ''bikes''),
         (''price'', VInt 50), (''price_type'', VStr ''FIXED''), (''shipping_type'', VStr ''PICKUP''),
         (''shipping_costs'', VNone), (''images'', VList []),
         (''contact'', VDict [(''name'', VStr ''Bob'')]), (''republication_interval'', VInt 7),
         (''id'', VStr ''123''), (''created_on'', VNone), (''updated_on'', VNone)])]
   \<and> getitem
        [(''active'', VBool True), (''type'', VStr ''OFFER''), (''title'', VStr ''A good bicycle''),
         (''description'', VStr ''Rides well''), (''category'', VStr ''217''),
         (''price'', VInt 50), (''price_type'', VStr ''FIXED''), (''shipping_type'', VStr ''PICKUP''),
         (''shipping_costs'', VNone), (''images'', VList []),
         (''contact'', VDict [(''name'', VStr ''Bob'')]), (''republication_interval'', VInt 7),
         (''id'', VInt 123), (''created_on'', VNone), (''updated_on'', VNone)]
        ''id'' = Inr (VInt 123)"
proof -
  define S where "S = \<lparr>ads_selector = ''due'', categories = [(''bikes'', ''217'')], ad_files_patterns = [''*.yaml''],
      data_root_dir = ''/data'', descr_prefix = [], descr_suffix = [],
      delete_old_ads = True, delete_ads_by_title = False\<rparr>"
  define W where "W = \<lparr>utcnow = 0, parse_datetime = (\<lambda>v. Inr 0),
      int_of_str = (\<lambda>s. if s = ''123'' then Some 123 else None),
      format_costs = (\<lambda>v. Inl ValueError),
      glob_in = (\<lambda>root p. if p = ''*.yaml'' then [''bike.yaml''] else []),
      isabs = (\<lambda>p. False), abspath = (\<lambda>f rel. ''/data/'' @ f),
      load_dict = (\<lambda>f. Inr
        [(''active'', VBool True), (''type'', VStr ''OFFER''), (''title'', VStr ''A good bicycle''),
         (''description'', VStr ''Rides well''), (''category'', VStr ''bikes''),
         (''price'', VInt 50), (''price_type'', VStr ''FIXED''), (''shipping_type'', VStr ''PICKUP''),
         (''shipping_costs'', VNone), (''images'', VList []),
         (''contact'', VDict [(''name'', VStr ''Bob'')]), (''republication_interval'', VInt 7),
         (''id'', VStr ''123''), (''created_on'', VNone), (''updated_on'', VNone)]),
      merge_defaults = (\<lambda>d. d)\<rparr>"
  define raw where "raw = [(''active'', VBool True), (''type'', VStr ''OFFER''), (''title'', VStr ''A good bicycle''),
         (''description'', VStr ''Rides well''), (''category'', VStr ''bikes''),
         (''price'', VInt 50), (''price_type'', VStr ''FIXED''), (''shipping_type'', VStr ''PICKUP''),
         (''shipping_costs'', VNone), (''images'', VList []),
         (''contact'', VDict [(''name'', VStr ''Bob'')]), (''republication_interval'', VInt 7),
         (''id'', VStr ''123''), (''created_on'', VNone), (''updated_on'', VNone)]"
  define resolved where "resolved = [(''active'', VBool True), (''type'', VStr ''OFFER''), (''title'', VStr ''A good bicycle''),
         (''description'', VStr ''Rides well''), (''category'', VStr ''217''),
         (''price'', VInt 50), (''price_type'', VStr ''FIXED''), (''shipping_type'', VStr ''PICKUP''),
         (''shipping_costs'', VNone), (''images'', VList []),
         (''contact'', VDict [(''name'', VStr ''Bob'')]), (''republication_interval'', VInt 7),
         (''id'', VInt 123), (''created_on'', VNone), (''updated_on'', VNone)]"
  have disc: "discover S W = [''/data/bike.yaml'']"
    by (simp add: discover_def S_def W_def endswith_def)
  have sel: "selected ''due'' True True (parse_datetime W) (utcnow W) raw = Inr True"
    by (simp add: selected_def due_skipped_def last_updated_on_def getitem_def raw_def)
  have comp: "compose_description [] [] raw = Inr raw"
    by (simp add: compose_description_def getitem_def setitem_def raw_def)
  have val: "validate raw = Inr ()"
    by (simp add: validate_def andthen_def check_description_length_def assert_one_of_def
          assert_min_len_def assert_has_value_def check_price_def ensure_def getitem_def raw_def)
  have nid: "normalize_id (int_of_str W) raw = Inr (setitem raw ''id'' (VInt 123))"
    by (simp add: normalize_id_def getitem_def raw_def W_def)
  have rest: "setitem (setitem raw ''id'' (VInt 123)) ''category'' (VStr ''217'') = resolved"
    by (simp add: setitem_def raw_def resolved_def)
  have cat: "resolve_category (categories S) (setitem raw ''id'' (VInt 123)) = Inr resolved"
    unfolding rest [symmetric]
    by (simp add: resolve_category_def getitem_def setitem_def raw_def S_def)
  have ship: "normalize_shipping_costs (format_costs W) resolved = Inr resolved"
    by (simp add: normalize_shipping_costs_def getitem_def resolved_def)
  have img: "resolve_images g ia ap resolved = Inr resolved" for g ia ap
    by (simp add: resolve_images_def getitem_def resolved_def)
  have la: "load_ad S W True True ''/data/bike.yaml'' raw = Inr (Some resolved)"
    using sel comp val nid cat ship img
    by (simp add: load_ad_def S_def)
  have ld: "load_dict W f = Inr raw" and md: "merge_defaults W d = d" for f d
    by (simp_all add: W_def raw_def)
  have run: "load_ads S W True True = Inr [(''/data/bike.yaml'', resolved, raw)]"
    using la by (simp add: load_ads_def disc ld md)
  have mem: "(''/data/bike.yaml'', resolved, raw) \<in> set [(''/data/bike.yaml'', resolved, raw)]"
    by simp
  from loaded_id_is_integer [OF run mem] md [of raw]
  obtain i where i: "getitem raw ''id'' = Inr i"
    and s: "\<forall>s. i = VStr s \<and> s \<noteq> [] \<longrightarrow>
              (\<exists>n. int_of_str W s = Some n \<and> getitem resolved ''id'' = Inr (VInt n))"
    by auto
  from i have "i = VStr ''123''"
    by (simp add: getitem_def raw_def)
  with s obtain n where "int_of_str W ''123'' = Some n" "getitem resolved ''id'' = Inr (VInt n)"
    by auto
  then have "getitem resolved ''id'' = Inr (VInt 123)"
    by (simp add: W_def)
  with run show ?thesis
    unfolding S_def W_def raw_def resolved_def by blast
qed

section \<open>Image resolution\<close>

lemma fold_keys_split:
  "fold (\<lambda>x keys. if x \<in> set keys then keys else keys @ [x]) xs (acc @ bcc)
     = acc @ fold (\<lambda>x keys. if x \<in> set keys then keys else keys @ [x])
               (filter (\<lambda>x. x \<notin> set acc) xs) bcc"
  by (induction xs arbitrary: bcc) auto

lemma set_fold_keys:
  "set (fold (\<lambda>x keys. if x \<in> set keys then keys else keys @ [x]) xs acc) = set acc \<union> set xs"
  by (induction xs arbitrary: acc) auto

lemma distinct_fold_keys:
  "distinct acc \<Longrightarrow> distinct (fold (\<lambda>x keys. if x \<in> set keys then keys else keys @ [x]) xs acc)"
  by (induction xs arbitrary: acc) auto

lemma set_fromkeys: "set (fromkeys xs) = set xs"
  by (simp add: fromkeys_def set_fold_keys)

lemma distinct_fromkeys: "distinct (fromkeys xs)"
  by (simp add: fromkeys_def distinct_fold_keys)

lemma fromkeys_append:
  "fromkeys (xs @ ys) = fromkeys xs @ fromkeys (filter (\<lambda>y. y \<notin> set xs) ys)"
proof -
  have "fromkeys (xs @ ys)
      = fold (\<lambda>x keys. if x \<in> set keys then keys else keys @ [x]) ys (fromkeys xs @ [])"
    by (simp add: fromkeys_def)
  also have "\<dots> = fromkeys xs @ fromkeys (filter (\<lambda>y. y \<notin> set (fromkeys xs)) ys)"
    unfolding fold_keys_split by (simp add: fromkeys_def)
  finally show ?thesis by (simp add: set_fromkeys)
qed

lemma fromkeys_distinct: "distinct xs \<Longrightarrow> fromkeys xs = xs"
proof (induction xs rule: rev_induct)
  case Nil
  then show ?case by (simp add: fromkeys_def)
next
  case (snoc x xs)
  then have "fromkeys xs = xs" by simp
  with snoc.prems show ?case by (simp add: fromkeys_def)
qed

lemma sort_distinct_eq:
  fixes xs ys :: "('a::linorder) list"
  assumes "distinct xs" and "set xs = set ys"
  shows "sort xs = sort (remdups ys)"
proof -
  have "sort xs = sort (remdups xs)" using assms(1) by (simp add: distinct_remdups_id)
  also have "\<dots> = sorted_list_of_set (set xs)" by (simp add: sorted_list_of_set_sort_remdups)
  also have "\<dots> = sort (remdups ys)" by (simp add: assms(2) sorted_list_of_set_sort_remdups)
  finally show ?thesis .
qed


lemma collect_pattern_images_ok:
  assumes "\<forall>f \<in> set files. lower (splitext_ext f) \<in> set [''.gif'', ''.jpg'', ''.jpeg'', ''.png'']"
  shows "\<exists>ps. collect_pattern_images is_abs to_abs files acc = Inr ps \<and>
              set ps = set acc \<union> (\<lambda>f. if is_abs f then f else to_abs f) ` set files \<and>
              (distinct acc \<longrightarrow> distinct ps)"
  using assms
proof (induction files arbitrary: acc)
  case Nil
  then show ?case by simp
next
  case (Cons f files)
  let ?acc = "List.insert (if is_abs f then f else to_abs f) acc"
  from Cons.prems have "\<forall>f \<in> set files. lower (splitext_ext f) \<in> set [''.gif'', ''.jpg'', ''.jpeg'', ''.png'']"
    by simp
  from Cons.IH [OF this, of ?acc] obtain ps where
      ps: "collect_pattern_images is_abs to_abs files ?acc = Inr ps"
    and st: "set ps = set ?acc \<union> (\<lambda>f. if is_abs f then f else to_abs f) ` set files"
    and ds: "distinct ?acc \<longrightarrow> distinct ps"
    by blast
  from Cons.prems have ok: "lower (splitext_ext f) \<in> set [''.gif'', ''.jpg'', ''.jpeg'', ''.png'']"
    by simp
  have "collect_pattern_images is_abs to_abs (f # files) acc = Inr ps"
    using ok ps by (simp add: ensure_def)
  moreover have "set ps = set acc \<union> (\<lambda>f. if is_abs f then f else to_abs f) ` set (f # files)"
    using st by auto
  moreover have "distinct acc \<longrightarrow> distinct ps"
    using ds by simp
  ultimately show ?case by blast
qed

lemma images_loop_ok:
  assumes "\<forall>p \<in> set patterns. \<forall>f \<in> set (glob p).
             lower (splitext_ext f) \<in> set [''.gif'', ''.jpg'', ''.jpeg'', ''.png'']"
  shows "images_loop glob is_abs to_abs (map VStr patterns) images
           = Inr (images @ concat (map (\<lambda>p. sort (remdups (map (\<lambda>f. if is_abs f then f else to_abs f) (glob p))))
                                    patterns))"
  using assms
proof (induction patterns arbitrary: images)
  case Nil
  then show ?case by simp
next
  case (Cons p patterns)
  from Cons.prems have "\<forall>f \<in> set (glob p). lower (splitext_ext f) \<in> set [''.gif'', ''.jpg'', ''.jpeg'', ''.png'']"
    by simp
  from collect_pattern_images_ok [OF this, of is_abs to_abs "[]"] obtain ps where
      ps: "collect_pattern_images is_abs to_abs (glob p) [] = Inr ps"
    and st: "set ps = set (map (\<lambda>f. if is_abs f then f else to_abs f) (glob p))"
    and ds: "distinct ps"
    by auto
  have srt: "sort ps = sort (remdups (map (\<lambda>f. if is_abs f then f else to_abs f) (glob p)))"
    by (rule sort_distinct_eq [OF ds st])
  from Cons.prems have rest: "\<forall>p \<in> set patterns. \<forall>f \<in> set (glob p).
             lower (splitext_ext f) \<in> set [''.gif'', ''.jpg'', ''.jpeg'', ''.png'']"
    by simp
  show ?case
    by (simp add: ps srt Cons.IH [OF rest])
qed


lemma collect_pattern_images_Inr:
  "collect_pattern_images is_abs to_abs files acc = Inr ps \<Longrightarrow>
     \<forall>f \<in> set files. lower (splitext_ext f) \<in> set [''.gif'', ''.jpg'', ''.jpeg'', ''.png'']"
proof (induction files arbitrary: acc)
  case Nil
  then show ?case by simp
next
  case (Cons f files)
  from Cons.prems have ok: "lower (splitext_ext f) \<in> set [''.gif'', ''.jpg'', ''.jpeg'', ''.png'']"
    by (auto simp: ensure_def split: if_splits)
  with Cons.prems have "collect_pattern_images is_abs to_abs files
        (List.insert (if is_abs f then f else to_abs f) acc) = Inr ps"
    by (simp add: ensure_def)
  from Cons.IH [OF this] ok show ?case by simp
qed

lemma images_loop_Inr:
  "images_loop glob is_abs to_abs (map VStr patterns) images = Inr r \<Longrightarrow>
     \<forall>p \<in> set patterns. \<forall>f \<in> set (glob p).
        lower (splitext_ext f) \<in> set [''.gif'', ''.jpg'', ''.jpeg'', ''.png'']"
proof (induction patterns arbitrary: images)
  case Nil
  then show ?case by simp
next
  case (Cons p patterns)
  from Cons.prems obtain ps where
      ps: "collect_pattern_images is_abs to_abs (glob p) [] = Inr ps"
    and rest: "images_loop glob is_abs to_abs (map VStr patterns) (images @ sort ps) = Inr r"
    by (auto split: sum.splits)
  from collect_pattern_images_Inr [OF ps] Cons.IH [OF rest] show ?case by simp
qed

text \<open>
  C5. For a non-empty list of image patterns, with the matches of a pattern taken as
  absolute paths, without duplicates and sorted: when every match has an allowed extension
  and some pattern matches, the resolved image list is the concatenation of the patterns'
  matches in the given order, deduplicated with the first occurrence kept; it has no
  duplicates and holds exactly the matched paths, so a path matched by two patterns
  appears once; a further pattern adds, after what the earlier patterns gave, only its
  matches that are new, so the position of a path is the one its earliest pattern gives
  it. When no pattern matches anything, resolution fails. Whenever resolution returns,
  it returns that list.
\<close>

theorem resolve_images_result:
  assumes m: "matches = (\<lambda>p. sort (remdups (map (\<lambda>f. if is_abs f then f else to_abs f) (glob p))))"
      and imgs: "getitem ad_cfg ''images'' = Inr (VList (map VStr patterns))"
      and ne: "patterns \<noteq> []"
  shows "((\<forall>p \<in> set patterns. \<forall>f \<in> set (glob p).
             lower (splitext_ext f) \<in> set [''.gif'', ''.jpg'', ''.jpeg'', ''.png'']) \<and>
          (\<exists>p \<in> set patterns. glob p \<noteq> []) \<longrightarrow>
            resolve_images glob is_abs to_abs ad_cfg
              = Inr (setitem ad_cfg ''images''
                      (VList (map VStr (fromkeys (concat (map matches patterns)))))))
       \<and> ((\<forall>p \<in> set patterns. glob p = []) \<longrightarrow>
            resolve_images glob is_abs to_abs ad_cfg = Inl (AssertionError NoImagesFound))
       \<and> (\<forall>ad'. resolve_images glob is_abs to_abs ad_cfg = Inr ad' \<longrightarrow>
            ad' = setitem ad_cfg ''images''
                    (VList (map VStr (fromkeys (concat (map matches patterns))))))
       \<and> distinct (fromkeys (concat (map matches patterns)))
       \<and> set (fromkeys (concat (map matches patterns)))
           = (\<Union>p \<in> set patterns. (\<lambda>f. if is_abs f then f else to_abs f) ` set (glob p))
       \<and> (\<forall>ps p. fromkeys (concat (map matches (ps @ [p])))
                   = fromkeys (concat (map matches ps))
                     @ filter (\<lambda>x. x \<notin> (\<Union>q \<in> set ps. set (matches q))) (matches p))"
proof -
  let ?ok = "\<forall>p \<in> set patterns. \<forall>f \<in> set (glob p).
             lower (splitext_ext f) \<in> set [''.gif'', ''.jpg'', ''.jpeg'', ''.png'']"
  let ?images = "concat (map matches patterns)"
  let ?res = "setitem ad_cfg ''images'' (VList (map VStr (fromkeys ?images)))"
  have tr: "truthy (VList (map VStr patterns))"
    using ne by simp
  have loop: "images_loop glob is_abs to_abs (map VStr patterns) [] = Inr ?images" if ?ok
    using images_loop_ok [OF that, of is_abs to_abs "[]"] by (simp add: m)
  have me: "matches p = [] \<longleftrightarrow> glob p = []" for p
  proof -
    have "set (matches p) = (\<lambda>f. if is_abs f then f else to_abs f) ` set (glob p)"
      unfolding m by (simp only: set_sort set_remdups set_map)
    then show ?thesis by (metis image_is_empty set_empty)
  qed
  have empty_iff: "?images = [] \<longleftrightarrow> (\<forall>p \<in> set patterns. glob p = [])"
    by (simp add: me)
  have ok_res: "resolve_images glob is_abs to_abs ad_cfg
                  = (if ?images = [] then Inl (AssertionError NoImagesFound) else Inr ?res)" if ?ok
    using imgs tr loop [OF that] ne
    by (simp add: resolve_images_def ensure_def)
  have c1: "?ok \<and> (\<exists>p \<in> set patterns. glob p \<noteq> []) \<longrightarrow>
              resolve_images glob is_abs to_abs ad_cfg = Inr ?res"
    using ok_res empty_iff by auto
  have c2: "(\<forall>p \<in> set patterns. glob p = []) \<longrightarrow>
              resolve_images glob is_abs to_abs ad_cfg = Inl (AssertionError NoImagesFound)"
  proof
    assume e: "\<forall>p \<in> set patterns. glob p = []"
    then have ?ok by simp
    from ok_res [OF this] e empty_iff show
      "resolve_images glob is_abs to_abs ad_cfg = Inl (AssertionError NoImagesFound)"
      by simp
  qed
  have c3: "\<forall>ad'. resolve_images glob is_abs to_abs ad_cfg = Inr ad' \<longrightarrow> ad' = ?res"
  proof (intro allI impI)
    fix ad'
    assume r: "resolve_images glob is_abs to_abs ad_cfg = Inr ad'"
    with imgs tr obtain images where
      "images_loop glob is_abs to_abs (map VStr patterns) [] = Inr images"
      by (auto simp: resolve_images_def split: sum.splits)
    from images_loop_Inr [OF this] have ?ok .
    from ok_res [OF this] r show "ad' = ?res"
      by (simp split: if_splits)
  qed
  have c4: "distinct (fromkeys ?images)"
    by (rule distinct_fromkeys)
  have c5: "set (fromkeys ?images)
              = (\<Union>p \<in> set patterns. (\<lambda>f. if is_abs f then f else to_abs f) ` set (glob p))"
    by (simp add: set_fromkeys m)
  have c6: "fromkeys (concat (map matches (ps @ [p])))
              = fromkeys (concat (map matches ps))
                @ filter (\<lambda>x. x \<notin> (\<Union>q \<in> set ps. set (matches q))) (matches p)" for ps p
  proof -
    have "distinct (matches p)"
      by (simp add: m)
    then have "fromkeys (filter (\<lambda>x. x \<notin> set (concat (map matches ps))) (matches p))
                 = filter (\<lambda>x. x \<notin> set (concat (map matches ps))) (matches p)"
      by (simp add: fromkeys_distinct)
    then show ?thesis
      by (simp add: fromkeys_append)
  qed
  from c1 c2 c3 c4 c5 c6 show ?thesis by blast
qed


theorem resolve_images_result_witness:
  "resolve_images (\<lambda>p. if p = ''a/*.jpg'' then [''a/b.jpg'', ''a/a.jpg'']
                      else if p = ''a/b.jpg'' then [''a/b.jpg''] else []) (\<lambda>f. False) (\<lambda>f. ''/ads/'' @ f)
       [(''title'', VStr ''A good bicycle''), (''images'', VList [VStr ''a/*.jpg'', VStr ''a/b.jpg''])]
     = Inr [(''title'', VStr ''A good bicycle''),
            (''images'', VList [VStr ''/ads/a/a.jpg'', VStr ''/ads/a/b.jpg''])]
   \<and> resolve_images (\<lambda>p. if p = ''a/*.jpg'' then [''a/b.jpg'', ''a/a.jpg'']
                      else if p = ''a/b.jpg'' then [''a/b.jpg''] else []) (\<lambda>f. False) (\<lambda>f. ''/ads/'' @ f)
       [(''title'', VStr ''A good bicycle''), (''images'', VList [VStr ''a/b.jpg'', VStr ''a/*.jpg''])]
     = Inr [(''title'', VStr ''A good bicycle''),
            (''images'', VList [VStr ''/ads/a/b.jpg'', VStr ''/ads/a/a.jpg''])]
   \<and> resolve_images (\<lambda>p. if p = ''a/*.jpg'' then [''a/b.jpg'', ''a/a.jpg'']
                      else if p = ''a/b.jpg'' then [''a/b.jpg''] else []) (\<lambda>f. False) (\<lambda>f. ''/ads/'' @ f)
       [(''title'', VStr ''A good bicycle''), (''images'', VList [VStr ''c/*.png''])]
     = Inl (AssertionError NoImagesFound)"
proof -
  define glob where "glob = (\<lambda>p. if p = ''a/*.jpg'' then [''a/b.jpg'', ''a/a.jpg'']
                      else if p = ''a/b.jpg'' then [''a/b.jpg''] else [])"
  define to_abs where "to_abs = (\<lambda>f. ''/ads/'' @ f)"
  define matches where
    "matches = (\<lambda>p. sort (remdups (map (\<lambda>f. if False then f else to_abs f) (glob p))))"
  define ad where "ad = (\<lambda>ps. [(''title'', VStr ''A good bicycle''), (''images'', VList (map VStr ps))])"
  have g: "getitem (ad ps) ''images'' = Inr (VList (map VStr ps))" for ps
    by (simp add: ad_def getitem_def)
  have ext: "lower (splitext_ext ''a/b.jpg'') = ''.jpg''" "lower (splitext_ext ''a/a.jpg'') = ''.jpg''"
    by (simp_all add: lower_def splitext_ext_def ascii_lower_def)
  have m1: "matches ''a/*.jpg'' = [''/ads/a/a.jpg'', ''/ads/a/b.jpg'']"
   and m2: "matches ''a/b.jpg'' = [''/ads/a/b.jpg'']"
    by (simp_all add: matches_def glob_def to_abs_def)
  have ok: "\<forall>p \<in> set ps. \<forall>f \<in> set (glob p).
             lower (splitext_ext f) \<in> set [''.gif'', ''.jpg'', ''.jpeg'', ''.png'']" for ps
    using ext by (simp add: glob_def)
  have ex: "\<exists>p \<in> set [''a/*.jpg'', ''a/b.jpg'']. glob p \<noteq> []"
   and ex': "\<exists>p \<in> set [''a/b.jpg'', ''a/*.jpg'']. glob p \<noteq> []"
   and em: "\<forall>p \<in> set [''c/*.png'']. glob p = []"
    by (simp_all add: glob_def)
  have ne: "[''a/*.jpg'', ''a/b.jpg''] \<noteq> []" "[''a/b.jpg'', ''a/*.jpg''] \<noteq> []" "[''c/*.png''] \<noteq> []"
    by simp_all
  have a: "resolve_images glob (\<lambda>f. False) to_abs (ad [''a/*.jpg'', ''a/b.jpg''])
             = Inr (setitem (ad [''a/*.jpg'', ''a/b.jpg'']) ''images''
                 (VList (map VStr (fromkeys (concat (map matches [''a/*.jpg'', ''a/b.jpg''])))))) "
    using resolve_images_result [OF matches_def g [of "[''a/*.jpg'', ''a/b.jpg'']"] ne(1), THEN conjunct1]
          ok [of "[''a/*.jpg'', ''a/b.jpg'']"] ex
    by blast
  have b: "resolve_images glob (\<lambda>f. False) to_abs (ad [''a/b.jpg'', ''a/*.jpg''])
             = Inr (setitem (ad [''a/b.jpg'', ''a/*.jpg'']) ''images''
                 (VList (map VStr (fromkeys (concat (map matches [''a/b.jpg'', ''a/*.jpg''])))))) "
    using resolve_images_result [OF matches_def g [of "[''a/b.jpg'', ''a/*.jpg'']"] ne(2), THEN conjunct1]
          ok [of "[''a/b.jpg'', ''a/*.jpg'']"] ex'
    by blast
  have c: "resolve_images glob (\<lambda>f. False) to_abs (ad [''c/*.png'']) = Inl (AssertionError NoImagesFound)"
    using resolve_images_result [OF matches_def g [of "[''c/*.png'']"] ne(3), THEN conjunct2, THEN conjunct1]
          em
    by blast
  have fa: "fromkeys (concat (map matches [''a/*.jpg'', ''a/b.jpg''])) = [''/ads/a/a.jpg'', ''/ads/a/b.jpg'']"
   and fb: "fromkeys (concat (map matches [''a/b.jpg'', ''a/*.jpg''])) = [''/ads/a/b.jpg'', ''/ads/a/a.jpg'']"
    by (simp_all add: m1 m2 fromkeys_def)
  have sa: "setitem (ad ps) ''images'' v = [(''title'', VStr ''A good bicycle''), (''images'', v)]" for ps v
    by (simp add: ad_def setitem_def)
  from a b c show ?thesis
    unfolding fa fb sa
    unfolding ad_def glob_def to_abs_def list.map
    by blast
qed

section \<open>Idempotence of the defaults merge\<close>

lemma map_of_setitem: "map_of (setitem d k v) k' = (if k' = k then Some v else map_of d k')"
  by (simp add: setitem_def update_conv')

lemma merge_field_other:
  "fst kv \<noteq> k \<Longrightarrow> map_of (merge_field l kv acc) k = map_of acc k"
  by (simp add: merge_field_def map_of_setitem split: option.splits)

lemma fold_merge_field_other:
  "k \<notin> fst ` set src \<Longrightarrow> map_of (fold (merge_field l) src acc) k = map_of acc k"
  by (induction src arbitrary: acc) (auto simp: merge_field_other)

lemma merge_field_here:
  "\<not> layer_ignore l k dv \<Longrightarrow>
     \<exists>tv. map_of (merge_field l (k, dv) acc) k = Some tv \<and>
          (tv = dv \<or> (map_of acc k = Some tv \<and> \<not> layer_override l k tv))"
  by (simp add: merge_field_def map_of_setitem split: option.splits)

lemma fold_merge_field_settled:
  assumes "distinct (map fst src)" and "(k, dv) \<in> set src" and "\<not> layer_ignore l k dv"
  shows "\<exists>tv. map_of (fold (merge_field l) src acc) k = Some tv \<and>
              (tv = dv \<or> (map_of acc k = Some tv \<and> \<not> layer_override l k tv))"
  using assms
proof (induction src arbitrary: acc)
  case Nil
  then show ?case by simp
next
  case (Cons kv src)
  show ?case
  proof (cases "kv = (k, dv)")
    case True
    with Cons.prems(1) have "k \<notin> fst ` set src" by auto
    then have "map_of (fold (merge_field l) src (merge_field l (k, dv) acc)) k
                 = map_of (merge_field l (k, dv) acc) k"
      by (rule fold_merge_field_other)
    with merge_field_here [OF Cons.prems(3), of acc] True show ?thesis by simp
  next
    case False
    with Cons.prems have in_src: "(k, dv) \<in> set src" and d: "distinct (map fst src)"
      by auto
    from in_src have "k \<in> fst ` set src" by force
    with Cons.prems(1) have "fst kv \<noteq> k" by auto
    then have "map_of (merge_field l kv acc) k = map_of acc k"
      by (rule merge_field_other)
    with Cons.IH [OF d in_src Cons.prems(3), of "merge_field l kv acc"] show ?thesis by simp
  qed
qed

lemma fold_merge_field_fixed:
  assumes "\<forall>kv \<in> set src. layer_ignore l (fst kv) (snd kv) \<or>
             (\<exists>tv. map_of t (fst kv) = Some tv \<and> (layer_override l (fst kv) tv \<longrightarrow> tv = snd kv))"
  shows "fold (merge_field l) src t = t"
  using assms
proof (induction src)
  case Nil
  then show ?case by simp
next
  case (Cons kv src)
  from Cons.prems have "merge_field l kv t = t"
    by (auto simp: merge_field_def setitem_same_value)
  with Cons show ?case by simp
qed

lemma apply_defaults_idem:
  assumes "distinct (map fst (layer_source l))"
  shows "apply_defaults l (apply_defaults l t) = apply_defaults l t"
  unfolding apply_defaults_def
proof (rule fold_merge_field_fixed, intro ballI)
  fix kv
  assume kv: "kv \<in> set (layer_source l)"
  show "layer_ignore l (fst kv) (snd kv) \<or>
          (\<exists>tv. map_of (fold (merge_field l) (layer_source l) t) (fst kv) = Some tv \<and>
                (layer_override l (fst kv) tv \<longrightarrow> tv = snd kv))"
  proof (cases "layer_ignore l (fst kv) (snd kv)")
    case True
    then show ?thesis by simp
  next
    case False
    from kv have "(fst kv, snd kv) \<in> set (layer_source l)" by simp
    from fold_merge_field_settled [OF assms this False, of t] show ?thesis by blast
  qed
qed

lemma merge_field_keeps:
  assumes "\<forall>k v. \<not> layer_override l k v" and "map_of acc k = Some v"
  shows "map_of (merge_field l kv acc) k = Some v"
  using assms by (auto simp: merge_field_def map_of_setitem split: option.splits)

lemma apply_defaults_keeps:
  assumes "\<forall>k v. \<not> layer_override l k v" and "map_of t k = Some v"
  shows "map_of (apply_defaults l t) k = Some v"
proof -
  have "map_of (fold (merge_field l) src t) k = Some v" for src
    using assms(2)
  proof (induction src arbitrary: t)
    case Nil
    then show ?case by simp
  next
    case (Cons kv src)
    from merge_field_keeps [OF assms(1) Cons.prems] Cons.IH show ?case by simp
  qed
  then show ?thesis by (simp add: apply_defaults_def)
qed

text \<open>
  C6. The defaults merge is idempotent: with the two layers of the loader (the global ad
  defaults, then the schema's field-default table, each a mapping and so with distinct
  keys), merging the merged definition again gives the merged definition.
\<close>

theorem merge_idempotent:
  assumes "distinct (map fst ad_defaults)" and "distinct (map fst ad_fields)"
  shows "merge (merge raw (ad_layers ad_defaults ad_fields)) (ad_layers ad_defaults ad_fields)
           = merge raw (ad_layers ad_defaults ad_fields)"
proof -
  define l1 where "l1 = \<lparr>layer_source = ad_defaults,
       layer_override = (\<lambda>k v. v = VStr []),
       layer_ignore = (\<lambda>k v. k = ''description'')\<rparr>"
  define l2 where "l2 = \<lparr>layer_source = ad_fields,
       layer_override = (\<lambda>k v. False),
       layer_ignore = (\<lambda>k (v::pyval). False)\<rparr>"
  define t1 where "t1 = apply_defaults l1 raw"
  define r where "r = apply_defaults l2 t1"
  have m: "merge t (ad_layers ad_defaults ad_fields) = apply_defaults l2 (apply_defaults l1 t)" for t
    by (simp add: merge_def ad_layers_def l1_def l2_def)
  have d1: "distinct (map fst (layer_source l1))" and d2: "distinct (map fst (layer_source l2))"
    using assms by (simp_all add: l1_def l2_def)
  have no2: "\<forall>k v. \<not> layer_override l2 k v"
    by (simp add: l2_def)
  have fix2: "apply_defaults l2 r = r"
    unfolding r_def by (rule apply_defaults_idem [OF d2])
  have fix1: "apply_defaults l1 r = r"
    unfolding apply_defaults_def
  proof (rule fold_merge_field_fixed, intro ballI)
    fix kv
    assume kv: "kv \<in> set (layer_source l1)"
    show "layer_ignore l1 (fst kv) (snd kv) \<or>
            (\<exists>tv. map_of r (fst kv) = Some tv \<and> (layer_override l1 (fst kv) tv \<longrightarrow> tv = snd kv))"
    proof (cases "layer_ignore l1 (fst kv) (snd kv)")
      case True
      then show ?thesis by simp
    next
      case False
      from kv have "(fst kv, snd kv) \<in> set (layer_source l1)" by simp
      from fold_merge_field_settled [OF d1 this False, of raw] obtain tv where
          tv: "map_of t1 (fst kv) = Some tv"
        and c: "tv = snd kv \<or> (map_of raw (fst kv) = Some tv \<and> \<not> layer_override l1 (fst kv) tv)"
        by (auto simp: t1_def apply_defaults_def)
      from apply_defaults_keeps [OF no2 tv] have "map_of r (fst kv) = Some tv"
        by (simp add: r_def)
      with c show ?thesis by auto
    qed
  qed
  show ?thesis
    unfolding m
    using fix1 fix2 by (simp add: r_def t1_def)
qed

theorem merge_idempotent_witness:
  "merge [(''title'', VStr ''A good bicycle''), (''type'', VStr [])]
     (ad_layers
        [(''active'', VBool True), (''type'', VStr ''OFFER''),
         (''description'', VDict [(''prefix'', VStr []), (''suffix'', VStr [])]),
         (''price_type'', VStr ''NEGOTIABLE'')]
        [(''active'', VNone), (''type'', VNone), (''title'', VNone), (''description'', VNone),
         (''price_type'', VNone), (''id'', VNone)])
   = [(''title'', VStr ''A good bicycle''), (''type'', VStr ''OFFER''), (''active'', VBool True),
      (''price_type'', VStr ''NEGOTIABLE''), (''description'', VNone), (''id'', VNone)]
   \<and> merge [(''title'', VStr ''A good bicycle''), (''type'', VStr ''OFFER''), (''active'', VBool True),
      (''price_type'', VStr ''NEGOTIABLE''), (''description'', VNone), (''id'', VNone)]
     (ad_layers
        [(''active'', VBool True), (''type'', VStr ''OFFER''),
         (''description'', VDict [(''prefix'', VStr []), (''suffix'', VStr [])]),
         (''price_type'', VStr ''NEGOTIABLE'')]
        [(''active'', VNone), (''type'', VNone), (''title'', VNone), (''description'', VNone),
         (''price_type'', VNone), (''id'', VNone)])
   = [(''title'', VStr ''A good bicycle''), (''type'', VStr ''OFFER''), (''active'', VBool True),
      (''price_type'', VStr ''NEGOTIABLE''), (''description'', VNone), (''id'', VNone)]"
proof -
  define ad_defaults where "ad_defaults =
        [(''active'', VBool True), (''type'', VStr ''OFFER''),
         (''description'', VDict [(''prefix'', VStr []), (''suffix'', VStr [])]),
         (''price_type'', VStr ''NEGOTIABLE'')]"
  define ad_fields where "ad_fields =
        [(''active'', VNone), (''type'', VNone), (''title'', VNone), (''description'', VNone),
         (''price_type'', VNone), (''id'', VNone)]"
  define raw where "raw = [(''title'', VStr ''A good bicycle''), (''type'', VStr [])]"
  have d1: "distinct (map fst ad_defaults)" and d2: "distinct (map fst ad_fields)"
    by (simp_all add: ad_defaults_def ad_fields_def)
  have run: "merge raw (ad_layers ad_defaults ad_fields)
      = [(''title'', VStr ''A good bicycle''), (''type'', VStr ''OFFER''), (''active'', VBool True),
         (''price_type'', VStr ''NEGOTIABLE''), (''description'', VNone), (''id'', VNone)]"
    by (simp add: merge_def ad_layers_def apply_defaults_def merge_field_def setitem_def
          raw_def ad_defaults_def ad_fields_def)
  from merge_idempotent [OF d1 d2, of raw] run show ?thesis
    unfolding raw_def ad_defaults_def ad_fields_def by simp
qed

end
